theory Spec2Isabelle
  imports Complex_Main "HOL-Library.AList"
begin

section \<open>The file system\<close>

text \<open>
  Both scripts work on paths below the directory that holds them. A path is the list of
  its components below that directory; a file carries its bytes and its modification
  time (the metadata that \<^verbatim>\<open>shutil.copy2\<close> carries over); a directory is its listing, in
  the order the operating system enumerates it. File names and class labels are taken as
  single path components, so \<^verbatim>\<open>OUTPUT_DIR / class_name\<close> appends one component.
\<close>

type_synonym path = "string list"

datatype node = File (content: string) (mtime: nat) | Dir "(string \<times> node) list"

datatype exn =
    FileNotFoundError
  | NotADirectoryError
  | IsADirectoryError
  | FileExistsError
  | SameFileError
  | KeyError string
  | OtherException string

primrec lookup :: "path \<Rightarrow> node \<Rightarrow> node option" where
  "lookup [] n = Some n"
| "lookup (c # cs) n =
     (case n of
        File _ _ \<Rightarrow> None
      | Dir es \<Rightarrow> (case map_of es c of None \<Rightarrow> None | Some m \<Rightarrow> lookup cs m))"

primrec put :: "path \<Rightarrow> node \<Rightarrow> node \<Rightarrow> node" where
  "put [] new n = new"
| "put (c # cs) new n =
     (case n of
        File _ _ \<Rightarrow> n
      | Dir es \<Rightarrow>
          (if cs = [] then Dir (AList.update c new es)
           else Dir (AList.map_entry c (put cs new) es)))"

primrec remove :: "path \<Rightarrow> node \<Rightarrow> node" where
  "remove [] n = n"
| "remove (c # cs) n =
     (case n of
        File _ _ \<Rightarrow> n
      | Dir es \<Rightarrow>
          (if cs = [] then Dir (AList.delete c es)
           else Dir (AList.map_entry c (remove cs) es)))"

definition path_exists :: "path \<Rightarrow> node \<Rightarrow> bool" where
  "path_exists p f = (lookup p f \<noteq> None)"

definition name_of :: "path \<Rightarrow> string" where
  "name_of p = (if p = [] then [] else last p)"

text \<open>\<^verbatim>\<open>shutil.rmtree\<close>: the path must name a directory.\<close>

definition rmtree :: "path \<Rightarrow> node \<Rightarrow> exn + node" where
  "rmtree p f =
     (case lookup p f of
        None \<Rightarrow> Inl FileNotFoundError
      | Some (File _ _) \<Rightarrow> Inl NotADirectoryError
      | Some (Dir _) \<Rightarrow> Inr (remove p f))"

text \<open>\<^verbatim>\<open>Path.mkdir(exist_ok=True)\<close>, without \<^verbatim>\<open>parents\<close>.\<close>

definition mkdir_exist_ok :: "path \<Rightarrow> node \<Rightarrow> exn + node" where
  "mkdir_exist_ok p f =
     (case lookup p f of
        Some (Dir _) \<Rightarrow> Inr f
      | Some (File _ _) \<Rightarrow> Inl FileExistsError
      | None \<Rightarrow>
          (case lookup (butlast p) f of
             Some (Dir _) \<Rightarrow> Inr (put p (Dir []) f)
           | Some (File _ _) \<Rightarrow> Inl NotADirectoryError
           | None \<Rightarrow> Inl FileNotFoundError))"

text \<open>\<^verbatim>\<open>open(p, 'rb')\<close> followed by reading the stream.\<close>

definition open_rb :: "path \<Rightarrow> node \<Rightarrow> exn + string" where
  "open_rb p f =
     (case lookup p f of
        None \<Rightarrow> Inl FileNotFoundError
      | Some (Dir _) \<Rightarrow> Inl IsADirectoryError
      | Some (File c _) \<Rightarrow> Inr c)"

text \<open>
  \<^verbatim>\<open>shutil.copy2(src, dst)\<close>: a destination that is a directory receives the file under
  the source's name; the bytes and the metadata of the source are written to the
  destination, replacing a file that is already there. Of the metadata the
  modification time is kept; permission bits are not part of a node.
\<close>

definition copy2 :: "path \<Rightarrow> path \<Rightarrow> node \<Rightarrow> exn + node" where
  "copy2 src dst f =
     (case lookup src f of
        None \<Rightarrow> Inl FileNotFoundError
      | Some (Dir _) \<Rightarrow> Inl IsADirectoryError
      | Some (File c m) \<Rightarrow>
          (let dst' = (case lookup dst f of Some (Dir _) \<Rightarrow> dst @ [name_of src] | _ \<Rightarrow> dst)
           in if dst' = src then Inl SameFileError
              else (case lookup (butlast dst') f of
                      None \<Rightarrow> Inl FileNotFoundError
                    | Some (File _ _) \<Rightarrow> Inl NotADirectoryError
                    | Some (Dir _) \<Rightarrow>
                        (case lookup dst' f of
                           Some (Dir _) \<Rightarrow> Inl IsADirectoryError
                         | _ \<Rightarrow> Inr (put dst' (File c m) f)))))"

text \<open>
  \<^verbatim>\<open>os.walk\<close>, top down: one triple (dirpath, dirs, files) for the directory itself, then
  the triples of each subdirectory in listing order. A top that is not a directory
  yields nothing.
\<close>

fun walk :: "path \<Rightarrow> node \<Rightarrow> (path \<times> string list \<times> string list) list" where
  "walk dirpath (File c m) = []"
| "walk dirpath (Dir es) =
     (dirpath, [k. (k, Dir _) \<leftarrow> es], [k. (k, File _ _) \<leftarrow> es])
       # concat (map (\<lambda>(k, n). case n of Dir _ \<Rightarrow> walk (dirpath @ [k]) n | File _ _ \<Rightarrow> []) es)"

section \<open>File name suffixes\<close>

text \<open>\<^verbatim>\<open>str.lower\<close> on the ASCII letters.\<close>

definition lower_char :: "char \<Rightarrow> char" where
  "lower_char c =
     (case map_of (zip ''ABCDEFGHIJKLMNOPQRSTUVWXYZ'' ''abcdefghijklmnopqrstuvwxyz'') c of
        None \<Rightarrow> c
      | Some l \<Rightarrow> l)"

definition lower :: "string \<Rightarrow> string" where
  "lower s = map lower_char s"

text \<open>
  \<^verbatim>\<open>Path(file).suffix\<close>: with \<open>i\<close> the index of the last dot of the name, the suffix is
  \<^verbatim>\<open>name[i:]\<close> when \<^verbatim>\<open>0 < i < len(name) - 1\<close> and the empty string otherwise.
\<close>

definition suffix :: "string \<Rightarrow> string" where
  "suffix name =
     (let ext = rev (takeWhile (\<lambda>c. c \<noteq> CHR ''.'') (rev name));
          i = length name - length ext - 1
      in if CHR ''.'' \<in> set name \<and> 0 < i \<and> ext \<noteq> [] then CHR ''.'' # ext else [])"

section \<open>The external prediction service\<close>

text \<open>
  \<^verbatim>\<open>dr_service\<close> is not part of the repository. It is a parameter: its list of class
  labels, and \<^verbatim>\<open>process_image\<close>, which takes the bytes of the stream and raises or returns
  a dictionary. The dictionary is read at the keys \<^verbatim>\<open>success\<close>, \<^verbatim>\<open>prediction\<close>,
  \<^verbatim>\<open>confidence\<close> and \<^verbatim>\<open>error\<close>; a key may be absent. Python's numbers are taken as
  exact reals.
\<close>

record result =
  success :: "bool option"
  prediction :: "string option"
  confidence :: "real option"
  error :: "string option"

record service =
  class_labels :: "string list"
  process_image :: "string \<Rightarrow> exn + result"

section \<open>Logging\<close>

datatype level = INFO | WARNING | ERROR

datatype message =
    Starting
  | Separator
  | SourceNotFound path
  | PleaseAddImages
  | NoImagesFound path
  | FoundImages nat
  | CreatedOutputDir path
  | ClassLabels "string list"
  | PredictionFailed path string
  | ErrorPredicting path exn
  | Processing string
  | ClassifiedAs string real
  | FailedToClassify string
  | Complete
  | TotalProcessed nat
  | ResultsHeader
  | ResultLine string nat
  | SavedTo path
  | MatchNote

record state =
  fs :: node
  logged :: "(level \<times> message) list"

definition logger :: "level \<Rightarrow> message \<Rightarrow> state \<Rightarrow> state" where
  "logger l m st = st\<lparr>logged := logged st @ [(l, m)]\<rparr>"

section \<open>classify\_images.py\<close>

definition SOURCE_DIR :: path where
  "SOURCE_DIR = [''colored_images'']"

definition OUTPUT_DIR :: path where
  "OUTPUT_DIR = [''classified_images'']"

fun mkdir_classes :: "string list \<Rightarrow> node \<Rightarrow> exn + node" where
  "mkdir_classes [] f = Inr f"
| "mkdir_classes (class_name # rest) f =
     (case mkdir_exist_ok (OUTPUT_DIR @ [class_name]) f of
        Inl e \<Rightarrow> Inl e
      | Inr f' \<Rightarrow> mkdir_classes rest f')"

definition setup_output_directory :: "service \<Rightarrow> state \<Rightarrow> exn + state" where
  "setup_output_directory svc st =
     (case (if path_exists OUTPUT_DIR (fs st) then rmtree OUTPUT_DIR (fs st) else Inr (fs st)) of
        Inl e \<Rightarrow> Inl e
      | Inr f1 \<Rightarrow>
          (case mkdir_exist_ok OUTPUT_DIR f1 of
             Inl e \<Rightarrow> Inl e
           | Inr f2 \<Rightarrow>
               (case mkdir_classes (class_labels svc) f2 of
                  Inl e \<Rightarrow> Inl e
                | Inr f3 \<Rightarrow>
                    Inr (logger INFO (ClassLabels (class_labels svc))
                          (logger INFO (CreatedOutputDir OUTPUT_DIR) (st\<lparr>fs := f3\<rparr>))))))"

definition image_extensions :: "string list" where
  "image_extensions = [''.jpg'', ''.jpeg'', ''.png'', ''.bmp'', ''.tiff'', ''.tif'']"

definition is_image_name :: "string \<Rightarrow> bool" where
  "is_image_name file = (lower (suffix file) \<in> set image_extensions)"

text \<open>The two inner loops: the matching files of each triple, in order.\<close>

definition images_of_walk :: "(path \<times> string list \<times> string list) list \<Rightarrow> path list" where
  "images_of_walk triples =
     concat (map (\<lambda>(dirpath, dirs, files). [dirpath @ [file]. file \<leftarrow> files, is_image_name file])
                 triples)"

definition find_image_files :: "path \<Rightarrow> node \<Rightarrow> path list" where
  "find_image_files directory f =
     (case lookup directory f of
        None \<Rightarrow> []
      | Some n \<Rightarrow> images_of_walk (walk directory n))"

text \<open>
  The pair \<^verbatim>\<open>(None, None)\<close> is \<open>None\<close>; every exception raised inside the
  \<^verbatim>\<open>try\<close> block is logged and gives \<open>None\<close>. The confidence is a real number
  and the division by 100 is exact: an integer confidence too large for a float, at
  which the division raises \<^verbatim>\<open>OverflowError\<close>, is not represented, and the properties
  of whole runs assume the range of \<open>confidence_in_range\<close>, in which it cannot occur.
\<close>

definition predict_image_using_django_service ::
  "service \<Rightarrow> path \<Rightarrow> state \<Rightarrow> state \<times> (string \<times> real) option" where
  "predict_image_using_django_service svc img_path st =
     (case open_rb img_path (fs st) of
        Inl e \<Rightarrow> (logger ERROR (ErrorPredicting img_path e) st, None)
      | Inr bytes \<Rightarrow>
          (case process_image svc bytes of
             Inl e \<Rightarrow> (logger ERROR (ErrorPredicting img_path e) st, None)
           | Inr r \<Rightarrow>
               if success r \<noteq> Some True then
                 (logger ERROR
                    (PredictionFailed img_path
                       (case error r of None \<Rightarrow> ''Unknown error'' | Some m \<Rightarrow> m)) st,
                  None)
               else
                 (case prediction r of
                    None \<Rightarrow>
                      (logger ERROR (ErrorPredicting img_path (KeyError ''prediction'')) st, None)
                  | Some p \<Rightarrow>
                      (case confidence r of
                         None \<Rightarrow>
                           (logger ERROR (ErrorPredicting img_path (KeyError ''confidence'')) st,
                            None)
                       | Some c \<Rightarrow> (st, Some (p, c / 100))))))"

type_synonym tally = "(string \<times> nat) list"

text \<open>The dictionary comprehension: keys in first-insertion order, every count zero.\<close>

definition init_results :: "string list \<Rightarrow> tally" where
  "init_results labels = foldl (\<lambda>d class_name. AList.update class_name 0 d) [] labels"

text \<open>The body of the loop over the discovered images.\<close>

definition classify_step ::
  "service \<Rightarrow> path \<Rightarrow> state \<times> tally \<times> nat \<Rightarrow> exn + (state \<times> tally \<times> nat)" where
  "classify_step svc img_path acc =
     (case acc of (st, results, processed) \<Rightarrow>
        (case predict_image_using_django_service svc img_path
                (logger INFO (Processing (name_of img_path)) st) of
           (st', Some (predicted_class, conf)) \<Rightarrow>
             if predicted_class \<noteq> [] then
               (case copy2 img_path (OUTPUT_DIR @ [predicted_class, name_of img_path]) (fs st') of
                  Inl e \<Rightarrow> Inl e
                | Inr f \<Rightarrow>
                    (case map_of results predicted_class of
                       None \<Rightarrow> Inl (KeyError predicted_class)
                     | Some n \<Rightarrow>
                         Inr (logger INFO (ClassifiedAs predicted_class conf) (st'\<lparr>fs := f\<rparr>),
                              AList.update predicted_class (n + 1) results,
                              processed + 1)))
             else Inr (logger WARNING (FailedToClassify (name_of img_path)) st', results, processed)
         | (st', None) \<Rightarrow>
             Inr (logger WARNING (FailedToClassify (name_of img_path)) st', results, processed)))"

fun classify_loop ::
  "service \<Rightarrow> path list \<Rightarrow> state \<times> tally \<times> nat \<Rightarrow> exn + (state \<times> tally \<times> nat)" where
  "classify_loop svc [] acc = Inr acc"
| "classify_loop svc (img_path # rest) acc =
     (case classify_step svc img_path acc of
        Inl e \<Rightarrow> Inl e
      | Inr acc' \<Rightarrow> classify_loop svc rest acc')"

definition summary :: "tally \<Rightarrow> nat \<Rightarrow> (level \<times> message) list" where
  "summary results processed =
     [(INFO, Complete), (INFO, TotalProcessed processed), (INFO, ResultsHeader)]
       @ map (\<lambda>(class_name, count). (INFO, ResultLine class_name count)) results
       @ [(INFO, SavedTo OUTPUT_DIR), (INFO, MatchNote)]"

text \<open>
  A run ends with an uncaught exception (\<open>Inl\<close>) or returns; an early return carries no
  tally, a full run carries the final tally and the processed count.
\<close>

definition classify_images :: "service \<Rightarrow> state \<Rightarrow> exn + (state \<times> (tally \<times> nat) option)" where
  "classify_images svc st =
     (let st0 = logger INFO Separator (logger INFO Starting st) in
      if \<not> path_exists SOURCE_DIR (fs st0) then
        Inr (logger INFO PleaseAddImages (logger ERROR (SourceNotFound SOURCE_DIR) st0), None)
      else
        (let image_files = find_image_files SOURCE_DIR (fs st0) in
         if image_files = [] then
           Inr (logger INFO PleaseAddImages (logger WARNING (NoImagesFound SOURCE_DIR) st0), None)
         else
           (case setup_output_directory svc (logger INFO (FoundImages (length image_files)) st0) of
              Inl e \<Rightarrow> Inl e
            | Inr st1 \<Rightarrow>
                (case classify_loop svc image_files (st1, init_results (class_labels svc), 0) of
                   Inl e \<Rightarrow> Inl e
                 | Inr (st2, results, processed) \<Rightarrow>
                     Inr (st2\<lparr>logged := logged st2 @ summary results processed\<rparr>,
                          Some (results, processed))))))"

section \<open>test\_prediction\_consistency.py\<close>

text \<open>
  The checker names its files by relative paths; they are read below the same directory
  as the paths of the batch classifier.
\<close>

datatype printed =
    Header
  | ImageNotFound path
  | TestingFrom string
  | ImageName string
  | ErrorPreprocessing path exn
  | FailedToPreprocess
  | PredictionFailedWith string
  | Predicted string
  | Confidence real
  | MatchesFolder
  | Mismatch string string
  | ErrorGettingPrediction exn
  | Footer

definition test_cases :: "(path \<times> string) list" where
  "test_cases =
     [([''classified_images'', ''Mild'', ''0773a1c326ad.png''], ''Mild''),
      ([''classified_images'', ''No_DR'', ''0151781fe50b.png''], ''No_DR''),
      ([''classified_images'', ''Moderate'', ''000c1434d8d7.png''], ''Moderate'')]"

text \<open>
  The chain \<^verbatim>\<open>Image.open(...).convert\<close>, \<^verbatim>\<open>resize\<close>, \<^verbatim>\<open>img_to_array\<close>,
  \<^verbatim>\<open>expand_dims\<close> and the division by 255 is library code: it is the parameter
  \<open>pipeline\<close>, which raises or gives an array of some type \<open>'arr\<close>.
\<close>

definition preprocess_image ::
  "(string \<Rightarrow> exn + 'arr) \<Rightarrow> path \<Rightarrow> node \<Rightarrow> printed list \<times> 'arr option" where
  "preprocess_image pipeline img_path f =
     (case open_rb img_path f of
        Inl e \<Rightarrow> ([ErrorPreprocessing img_path e], None)
      | Inr bytes \<Rightarrow>
          (case pipeline bytes of
             Inl e \<Rightarrow> ([ErrorPreprocessing img_path e], None)
           | Inr img_array \<Rightarrow> ([], Some img_array)))"

text \<open>The \<^verbatim>\<open>try\<close> block of the loop body of the checker.\<close>

definition get_prediction :: "service \<Rightarrow> path \<Rightarrow> string \<Rightarrow> node \<Rightarrow> printed list" where
  "get_prediction svc img_path expected_folder f =
     (case open_rb img_path f of
        Inl e \<Rightarrow> [ErrorGettingPrediction e]
      | Inr bytes \<Rightarrow>
          (case process_image svc bytes of
             Inl e \<Rightarrow> [ErrorGettingPrediction e]
           | Inr r \<Rightarrow>
               if success r \<noteq> Some True then
                 [PredictionFailedWith (case error r of None \<Rightarrow> ''Unknown error'' | Some m \<Rightarrow> m)]
               else
                 (case prediction r of
                    None \<Rightarrow> [ErrorGettingPrediction (KeyError ''prediction'')]
                  | Some p \<Rightarrow>
                      (case confidence r of
                         None \<Rightarrow> [ErrorGettingPrediction (KeyError ''confidence'')]
                       | Some c \<Rightarrow>
                           [Predicted p, Confidence (c / 100),
                            if p = expected_folder then MatchesFolder
                            else Mismatch expected_folder p]))))"

definition check_case ::
  "service \<Rightarrow> (string \<Rightarrow> exn + 'arr) \<Rightarrow> node \<Rightarrow> path \<times> string \<Rightarrow> printed list" where
  "check_case svc pipeline f tc =
     (case tc of (img_path, expected_folder) \<Rightarrow>
        if \<not> path_exists img_path f then [ImageNotFound img_path]
        else
          [TestingFrom (name_of (butlast img_path)), ImageName (name_of img_path)]
            @ (case preprocess_image pipeline img_path f of
                 (out, None) \<Rightarrow> out @ [FailedToPreprocess]
               | (out, Some img_array) \<Rightarrow> out @ get_prediction svc img_path expected_folder f))"

fun check_cases ::
  "service \<Rightarrow> (string \<Rightarrow> exn + 'arr) \<Rightarrow> node \<Rightarrow> (path \<times> string) list \<Rightarrow> printed list" where
  "check_cases svc pipeline f [] = []"
| "check_cases svc pipeline f (tc # rest) =
     check_case svc pipeline f tc @ check_cases svc pipeline f rest"

definition test_prediction_consistency ::
  "service \<Rightarrow> (string \<Rightarrow> exn + 'arr) \<Rightarrow> node \<Rightarrow> printed list" where
  "test_prediction_consistency svc pipeline f =
     [Header] @ check_cases svc pipeline f test_cases @ [Footer]"

section \<open>Notions used by the properties\<close>

text \<open>The capability keeps to its range: every confidence it returns lies in [0,100].\<close>

definition confidence_in_range :: "service \<Rightarrow> bool" where
  "confidence_in_range svc =
     (\<forall>bytes r c. process_image svc bytes = Inr r \<longrightarrow> confidence r = Some c \<longrightarrow> 0 \<le> c \<and> c \<le> 100)"

definition good_entry :: "level \<times> message \<Rightarrow> bool" where
  "good_entry e = (case snd e of ClassifiedAs p c \<Rightarrow> 0 \<le> c \<and> c \<le> 1 | _ \<Rightarrow> True)"

text \<open>
  A prediction attempt fails when the file cannot be opened, the capability raises, it
  reports no success, or its result lacks a key that the \<^verbatim>\<open>try\<close> block reads.
\<close>

definition prediction_attempt_fails :: "service \<Rightarrow> path \<Rightarrow> node \<Rightarrow> bool" where
  "prediction_attempt_fails svc img_path f =
     (case open_rb img_path f of
        Inl e \<Rightarrow> True
      | Inr bytes \<Rightarrow>
          (case process_image svc bytes of
             Inl e \<Rightarrow> True
           | Inr r \<Rightarrow> success r \<noteq> Some True \<or> prediction r = None \<or> confidence r = None))"

text \<open>The error line that the failed attempt leaves in the log.\<close>

definition failure_entry :: "service \<Rightarrow> path \<Rightarrow> node \<Rightarrow> level \<times> message" where
  "failure_entry svc img_path f =
     (case open_rb img_path f of
        Inl e \<Rightarrow> (ERROR, ErrorPredicting img_path e)
      | Inr bytes \<Rightarrow>
          (case process_image svc bytes of
             Inl e \<Rightarrow> (ERROR, ErrorPredicting img_path e)
           | Inr r \<Rightarrow>
               if success r \<noteq> Some True then
                 (ERROR, PredictionFailed img_path
                           (case error r of None \<Rightarrow> ''Unknown error'' | Some m \<Rightarrow> m))
               else if prediction r = None then
                 (ERROR, ErrorPredicting img_path (KeyError ''prediction''))
               else (ERROR, ErrorPredicting img_path (KeyError ''confidence''))))"

text \<open>A tree holds an image when some file below it, at any depth, has an image name.\<close>

fun contains_image :: "node \<Rightarrow> bool" where
  "contains_image (File c m) = False"
| "contains_image (Dir es) =
     list_ex (\<lambda>(k, n). case n of File _ _ \<Rightarrow> is_image_name k | Dir _ \<Rightarrow> contains_image n) es"

definition sub_walks ::
  "path \<Rightarrow> (string \<times> node) list \<Rightarrow> (path \<times> string list \<times> string list) list list" where
  "sub_walks dirpath es =
     map (\<lambda>(k, n). case n of Dir _ \<Rightarrow> walk (dirpath @ [k]) n | File _ _ \<Rightarrow> []) es"

definition preprocessing_fails :: "(string \<Rightarrow> exn + 'arr) \<Rightarrow> path \<Rightarrow> node \<Rightarrow> bool" where
  "preprocessing_fails pipeline img_path f =
     (case open_rb img_path f of Inl e \<Rightarrow> True | Inr bytes \<Rightarrow> isl (pipeline bytes))"

fun is_failure_report :: "printed \<Rightarrow> bool" where
  "is_failure_report FailedToPreprocess = True"
| "is_failure_report (PredictionFailedWith m) = True"
| "is_failure_report (ErrorGettingPrediction e) = True"
| "is_failure_report _ = False"

fun is_verdict :: "printed \<Rightarrow> bool" where
  "is_verdict MatchesFolder = True"
| "is_verdict (Mismatch a b) = True"
| "is_verdict _ = False"

text \<open>The pair that a prediction attempt returns, as a function of the file system alone.\<close>

definition predicted :: "service \<Rightarrow> path \<Rightarrow> node \<Rightarrow> (string \<times> real) option" where
  "predicted svc img_path f =
     snd (predict_image_using_django_service svc img_path \<lparr>fs = f, logged = []\<rparr>)"

text \<open>The class an image is filed under: the predicted label when it is truthy.\<close>

definition classified_as :: "service \<Rightarrow> node \<Rightarrow> path \<Rightarrow> string option" where
  "classified_as svc f img_path =
     (case predicted svc img_path f of
        Some (p, c) \<Rightarrow> if p \<noteq> [] then Some p else None
      | None \<Rightarrow> None)"

text \<open>No directory lies inside a class folder.\<close>

definition flat_output :: "node \<Rightarrow> bool" where
  "flat_output f = (\<forall>l n es. lookup (OUTPUT_DIR @ [l, n]) f \<noteq> Some (Dir es))"

text \<open>The keys of a dictionary filled from a list: first occurrences, in order.\<close>

definition add_key :: "string list \<Rightarrow> string \<Rightarrow> string list" where
  "add_key ks l = (if l \<in> set ks then ks else ks @ [l])"

definition first_occurrences :: "string list \<Rightarrow> string list" where
  "first_occurrences ls = foldl add_key [] ls"

text \<open>The output directory as the set-up leaves it: one empty directory for each label.\<close>

definition fresh_output :: "string list \<Rightarrow> node" where
  "fresh_output labels = Dir (map (\<lambda>k. (k, Dir [])) (first_occurrences labels))"

text \<open>A class folder: a directory that lists each name once and holds files only.\<close>

definition class_folder_ok :: "node \<Rightarrow> bool" where
  "class_folder_ok n =
     (case n of
        File _ _ \<Rightarrow> False
      | Dir xs \<Rightarrow> distinct (map fst xs)
                  \<and> list_all (\<lambda>x. case snd x of File _ _ \<Rightarrow> True | Dir _ \<Rightarrow> False) xs)"

text \<open>The output directory lists the class folders \<open>ks\<close>, in this order.\<close>

definition output_layout :: "string list \<Rightarrow> node \<Rightarrow> bool" where
  "output_layout ks f =
     (case lookup OUTPUT_DIR f of
        Some (Dir es) \<Rightarrow> map fst es = ks \<and> list_all (\<lambda>e. class_folder_ok (snd e)) es
      | _ \<Rightarrow> False)"

text \<open>Every path starts in the source directory.\<close>

definition under_source :: "path list \<Rightarrow> bool" where
  "under_source imgs = list_all (\<lambda>i. case i of [] \<Rightarrow> False | a # r \<Rightarrow> a = ''colored_images'') imgs"

text \<open>The file was opened and the capability returned a result with success true.\<close>

definition capability_succeeded :: "service \<Rightarrow> node \<Rightarrow> path \<Rightarrow> bool" where
  "capability_succeeded svc f img_path =
     (case open_rb img_path f of
        Inl e \<Rightarrow> False
      | Inr bytes \<Rightarrow>
          (case process_image svc bytes of Inl e \<Rightarrow> False | Inr r \<Rightarrow> success r = Some True))"

text \<open>A name of a directory entry: one path component.\<close>

definition is_name :: "string \<Rightarrow> bool" where
  "is_name s = (s \<noteq> [] \<and> s \<noteq> ''.'' \<and> s \<noteq> ''..'' \<and> CHR ''/'' \<notin> set s)"

text \<open>Every class label can name a folder.\<close>

definition labels_are_names :: "service \<Rightarrow> bool" where
  "labels_are_names svc = list_all is_name (class_labels svc)"

text \<open>
  The interface of the capability as the specification gives it: labels are names of
  directories, and a result with success true carries a label among the known ones and
  a confidence.
\<close>

definition honours_interface :: "service \<Rightarrow> bool" where
  "honours_interface svc =
     (labels_are_names svc
      \<and> (\<forall>bytes r. process_image svc bytes = Inr r \<longrightarrow> success r = Some True \<longrightarrow>
            (\<exists>p. prediction r = Some p \<and> p \<in> set (class_labels svc))
            \<and> confidence r \<noteq> None))"


text \<open>Two file systems with the same source tree and the same, existing, output tree.\<close>

definition same_view :: "node \<Rightarrow> node \<Rightarrow> bool" where
  "same_view f g =
     (lookup SOURCE_DIR f = lookup SOURCE_DIR g
      \<and> (\<exists>d. lookup OUTPUT_DIR f = Some d \<and> lookup OUTPUT_DIR g = Some d))"

text \<open>
  Two runs of the loop end alike: with the same exception, or with the same tally and
  count in file systems of the same view.
\<close>

definition same_outcome ::
  "exn + state \<times> tally \<times> nat \<Rightarrow> exn + state \<times> tally \<times> nat \<Rightarrow> bool" where
  "same_outcome a b =
     (case a of
        Inl e \<Rightarrow> b = Inl e
      | Inr (s, r, k) \<Rightarrow> (\<exists>s'. b = Inr (s', r, k) \<and> same_view (fs s) (fs s')))"

section \<open>A sample run\<close>

definition demo_result :: "string \<Rightarrow> real \<Rightarrow> result" where
  "demo_result label c =
     \<lparr>success = Some True, prediction = Some label, confidence = Some c, error = None\<rparr>"

definition demo_service :: service where
  "demo_service =
     \<lparr>class_labels = [''No_DR'', ''Mild'', ''Moderate''],
      process_image = (\<lambda>bytes.
        if bytes = ''A'' then Inr (demo_result ''Mild'' 87)
        else if bytes = ''B'' then Inr (demo_result ''Mild'' 90)
        else if bytes = ''C'' then Inr (demo_result ''No_DR'' (199 / 2))
        else if bytes = ''Z'' then Inl (OtherException ''cannot identify image file'')
        else Inr \<lparr>success = Some False, prediction = None, confidence = None,
                  error = Some ''unreadable''\<rparr>)\<rparr>"

definition demo_source :: node where
  "demo_source =
     Dir [(''0773a1c326ad.png'', File ''A'' 1),
          (''notes.txt'', File ''N'' 2),
          (''more'', Dir [(''0773a1c326ad.png'', File ''B'' 3),
                          (''0151781fe50b.png'', File ''C'' 4),
                          (''blurred.JPEG'', File ''Y'' 5)])]"

definition demo_fs :: node where
  "demo_fs = Dir [(''colored_images'', demo_source)]"

definition demo_state :: state where
  "demo_state = \<lparr>fs = demo_fs, logged = []\<rparr>"

definition demo_images :: "path list" where
  "demo_images =
     [[''colored_images'', ''0773a1c326ad.png''],
      [''colored_images'', ''more'', ''0773a1c326ad.png''],
      [''colored_images'', ''more'', ''0151781fe50b.png''],
      [''colored_images'', ''more'', ''blurred.JPEG'']]"

definition demo_output :: node where
  "demo_output =
     Dir [(''No_DR'', Dir [(''0151781fe50b.png'', File ''C'' 4)]),
          (''Mild'', Dir [(''0773a1c326ad.png'', File ''B'' 3)]),
          (''Moderate'', Dir [])]"

definition demo_final_fs :: node where
  "demo_final_fs = Dir [(''colored_images'', demo_source), (''classified_images'', demo_output)]"

definition demo_log :: "(level \<times> message) list" where
  "demo_log =
     [(INFO, Starting), (INFO, Separator), (INFO, FoundImages 4),
      (INFO, CreatedOutputDir [''classified_images'']),
      (INFO, ClassLabels [''No_DR'', ''Mild'', ''Moderate'']),
      (INFO, Processing ''0773a1c326ad.png''),
      (INFO, ClassifiedAs ''Mild'' (87 / 100)),
      (INFO, Processing ''0773a1c326ad.png''),
      (INFO, ClassifiedAs ''Mild'' (9 / 10)),
      (INFO, Processing ''0151781fe50b.png''),
      (INFO, ClassifiedAs ''No_DR'' (199 / 200)),
      (INFO, Processing ''blurred.JPEG''),
      (ERROR, PredictionFailed [''colored_images'', ''more'', ''blurred.JPEG''] ''unreadable''),
      (WARNING, FailedToClassify ''blurred.JPEG''),
      (INFO, Complete), (INFO, TotalProcessed 3), (INFO, ResultsHeader),
      (INFO, ResultLine ''No_DR'' 1), (INFO, ResultLine ''Mild'' 2),
      (INFO, ResultLine ''Moderate'' 0),
      (INFO, SavedTo [''classified_images'']), (INFO, MatchNote)]"

definition demo_tally :: tally where
  "demo_tally = [(''No_DR'', 1), (''Mild'', 2), (''Moderate'', 0)]"

definition demo_fresh_fs :: node where
  "demo_fresh_fs =
     Dir [(''colored_images'', demo_source),
          (''classified_images'', Dir [(''No_DR'', Dir []), (''Mild'', Dir []), (''Moderate'', Dir [])])]"

text \<open>A stand-in for the image pipeline: the length of the bytes, failing on one input.\<close>

definition demo_pipeline :: "string \<Rightarrow> exn + nat" where
  "demo_pipeline bytes =
     (if bytes = ''C'' then Inl (OtherException ''image file is truncated'')
      else Inr (length bytes))"

definition demo_pipeline' :: "string \<Rightarrow> exn + string" where
  "demo_pipeline' bytes =
     (if bytes = ''C'' then Inl (OtherException ''image file is truncated'')
      else Inr (rev bytes))"

definition demo_report :: "printed list" where
  "demo_report =
     [Header,
      TestingFrom ''Mild'', ImageName ''0773a1c326ad.png'',
      Predicted ''Mild'', Confidence (9 / 10), MatchesFolder,
      TestingFrom ''No_DR'', ImageName ''0151781fe50b.png'',
      ErrorPreprocessing [''classified_images'', ''No_DR'', ''0151781fe50b.png'']
        (OtherException ''image file is truncated''),
      FailedToPreprocess,
      ImageNotFound [''classified_images'', ''Moderate'', ''000c1434d8d7.png''],
      Footer]"

section \<open>Basic facts\<close>

lemma logged_logger [simp]: "logged (logger l m st) = logged st @ [(l, m)]"
  by (simp add: logger_def)

lemma fs_logger [simp]: "fs (logger l m st) = fs st"
  by (simp add: logger_def)

lemmas demo_defs = demo_result_def demo_service_def demo_source_def demo_fs_def demo_state_def
  demo_images_def demo_output_def demo_final_fs_def demo_log_def demo_tally_def

lemmas run_defs = SOURCE_DIR_def OUTPUT_DIR_def find_image_files_def images_of_walk_def
  is_image_name_def suffix_def lower_def lower_char_def
  image_extensions_def classify_images_def setup_output_directory_def path_exists_def rmtree_def
  mkdir_exist_ok_def copy2_def open_rb_def name_of_def logger_def init_results_def classify_step_def
  predict_image_using_django_service_def summary_def Let_def

lemmas check_defs = test_prediction_consistency_def test_cases_def check_case_def
  preprocess_image_def get_prediction_def demo_pipeline_def demo_pipeline'_def demo_report_def

lemma demo_find: "find_image_files SOURCE_DIR demo_fs = demo_images"
  by (simp add: demo_defs run_defs)

lemma demo_run:
  "classify_images demo_service demo_state =
     Inr (\<lparr>fs = demo_final_fs, logged = demo_log\<rparr>, Some (demo_tally, 3))"
  by (simp add: demo_defs run_defs)

lemma demo_check:
  "test_prediction_consistency demo_service demo_pipeline demo_final_fs = demo_report"
  by (simp add: demo_defs run_defs check_defs)

lemma demo_confidence_in_range: "confidence_in_range demo_service"
  by (auto simp: confidence_in_range_def demo_service_def demo_result_def split: if_splits)

section \<open>Reported confidence values\<close>

lemma predict_logged:
  assumes "predict_image_using_django_service svc img st = (st', r)"
  shows "fs st' = fs st \<and> (\<forall>e\<in>set (logged st'). e \<in> set (logged st) \<or> good_entry e)"
  using assms
  by (auto simp: predict_image_using_django_service_def good_entry_def
           split: sum.splits if_splits option.splits)

lemma scaled_confidence:
  assumes "confidence_in_range svc" and "process_image svc bytes = Inr r"
    and "confidence r = Some c"
  shows "0 \<le> c / 100 \<and> c / 100 \<le> 1"
proof -
  from assms have "0 \<le> c \<and> c \<le> 100"
    unfolding confidence_in_range_def by blast
  then show ?thesis by simp
qed

lemma predict_conf:
  assumes "predict_image_using_django_service svc img st = (st', Some (p, c))"
    and "confidence_in_range svc"
  shows "0 \<le> c \<and> c \<le> 1"
proof -
  from assms(1) obtain bytes r c0 where "process_image svc bytes = Inr r"
    "confidence r = Some c0" "c = c0 / 100"
    by (auto simp: predict_image_using_django_service_def
           split: sum.splits if_splits option.splits)
  with scaled_confidence[OF assms(2)] show ?thesis by blast
qed

lemma step_logged:
  assumes "classify_step svc img (st, res, n) = Inr (st', res', n')"
    and "confidence_in_range svc"
  shows "\<forall>e\<in>set (logged st'). e \<in> set (logged st) \<or> good_entry e"
proof -
  obtain st1 r where p: "predict_image_using_django_service svc img
      (logger INFO (Processing (name_of img)) st) = (st1, r)"
    by (cases "predict_image_using_django_service svc img
      (logger INFO (Processing (name_of img)) st)") auto
  from predict_logged[OF p]
  have l1: "\<forall>e\<in>set (logged st1). e \<in> set (logged st) \<or> good_entry e"
    by (auto simp: good_entry_def)
  show ?thesis
  proof (cases r)
    case None
    with assms(1) p l1 show ?thesis
      by (auto simp: classify_step_def good_entry_def)
  next
    case (Some pc)
    obtain q c where pc: "pc = (q, c)" by (cases pc)
    from predict_conf[OF _ assms(2)] p Some pc have "0 \<le> c \<and> c \<le> 1" by blast
    with assms(1) p l1 Some pc show ?thesis
      by (auto simp: classify_step_def good_entry_def split: if_splits sum.splits option.splits)
  qed
qed

lemma loop_logged:
  assumes "classify_loop svc imgs (st, res, n) = Inr (st', res', n')"
    and "confidence_in_range svc"
  shows "\<forall>e\<in>set (logged st'). e \<in> set (logged st) \<or> good_entry e"
  using assms
proof (induction imgs arbitrary: st res n)
  case Nil
  then show ?case by simp
next
  case (Cons img imgs)
  from Cons.prems(1) obtain st1 res1 n1 where
    s: "classify_step svc img (st, res, n) = Inr (st1, res1, n1)"
    and l: "classify_loop svc imgs (st1, res1, n1) = Inr (st', res', n')"
    by (auto split: sum.splits)
  from step_logged[OF s Cons.prems(2)] Cons.IH[OF l Cons.prems(2)]
  show ?case by blast
qed

lemma setup_logged:
  assumes "setup_output_directory svc st = Inr st'"
  shows "\<forall>e\<in>set (logged st'). e \<in> set (logged st) \<or> good_entry e"
  using assms
  by (auto simp: setup_output_directory_def good_entry_def split: sum.splits if_splits)

lemma summary_good: "\<forall>e\<in>set (summary res n). good_entry e"
  by (auto simp: summary_def good_entry_def)

text \<open>A full run is the set-up followed by the loop and the summary.\<close>

lemma classify_images_full:
  assumes "classify_images svc st = Inr (st', Some (res, n))"
  shows "\<exists>st1 st2.
           path_exists SOURCE_DIR (fs st)
         \<and> find_image_files SOURCE_DIR (fs st) \<noteq> []
         \<and> setup_output_directory svc
              (logger INFO (FoundImages (length (find_image_files SOURCE_DIR (fs st))))
                 (logger INFO Separator (logger INFO Starting st))) = Inr st1
         \<and> classify_loop svc (find_image_files SOURCE_DIR (fs st))
              (st1, init_results (class_labels svc), 0) = Inr (st2, res, n)
         \<and> st' = st2\<lparr>logged := logged st2 @ summary res n\<rparr>"
  using assms
  by (auto simp: classify_images_def Let_def split: if_splits sum.splits prod.splits)

lemma classify_images_early:
  assumes "classify_images svc st = Inr (st', None)"
  shows "fs st' = fs st
       \<and> (\<not> path_exists SOURCE_DIR (fs st) \<or> find_image_files SOURCE_DIR (fs st) = [])
       \<and> (\<exists>m. logged st' = logged st @ [(INFO, Starting), (INFO, Separator), m, (INFO, PleaseAddImages)]
              \<and> m \<in> {(ERROR, SourceNotFound SOURCE_DIR), (WARNING, NoImagesFound SOURCE_DIR)})"
  using assms
  by (auto simp: classify_images_def Let_def split: if_splits sum.splits prod.splits)

lemma run_logged:
  assumes "classify_images svc st = Inr (st', out)"
    and "confidence_in_range svc"
  shows "\<forall>e\<in>set (logged st'). e \<in> set (logged st) \<or> good_entry e"
proof (cases out)
  case None
  with classify_images_early[of svc st st'] assms(1) show ?thesis
    by (auto simp: good_entry_def)
next
  case (Some rp)
  obtain res n where rp: "rp = (res, n)" by (cases rp)
  from classify_images_full[of svc st st' res n] assms(1) Some rp
  obtain st1 st2 where
    su: "setup_output_directory svc
           (logger INFO (FoundImages (length (find_image_files SOURCE_DIR (fs st))))
              (logger INFO Separator (logger INFO Starting st))) = Inr st1"
    and lo: "classify_loop svc (find_image_files SOURCE_DIR (fs st))
               (st1, init_results (class_labels svc), 0) = Inr (st2, res, n)"
    and fin: "st' = st2\<lparr>logged := logged st2 @ summary res n\<rparr>"
    by auto
  from setup_logged[OF su] have a: "\<forall>e\<in>set (logged st1). e \<in> set (logged st) \<or> good_entry e"
    by (auto simp: good_entry_def)
  from loop_logged[OF lo assms(2)] a summary_good[of res n] fin show ?thesis
    by auto
qed

lemma get_prediction_conf:
  assumes "confidence_in_range svc" and "Confidence c \<in> set (get_prediction svc img e f)"
  shows "0 \<le> c \<and> c \<le> 1"
proof -
  from assms(2) obtain bytes r c0 where "process_image svc bytes = Inr r"
    "confidence r = Some c0" "c = c0 / 100"
    by (auto simp: get_prediction_def split: sum.splits if_splits option.splits)
  with scaled_confidence[OF assms(1)] show ?thesis by blast
qed

lemma check_case_conf:
  assumes "confidence_in_range svc" and "Confidence c \<in> set (check_case svc pl f tc)"
  shows "0 \<le> c \<and> c \<le> 1"
  using assms get_prediction_conf[OF assms(1)]
  by (auto simp: check_case_def preprocess_image_def
           split: sum.splits if_splits option.splits prod.splits)

lemma check_cases_conf:
  assumes "confidence_in_range svc" and "Confidence c \<in> set (check_cases svc pl f tcs)"
  shows "0 \<le> c \<and> c \<le> 1"
  using assms(2)
proof (induction tcs)
  case Nil
  then show ?case by simp
next
  case (Cons tc tcs)
  then have "Confidence c \<in> set (check_case svc pl f tc)
      \<or> Confidence c \<in> set (check_cases svc pl f tcs)"
    by simp
  with Cons.IH check_case_conf[OF assms(1)] show ?case by blast
qed

text \<open>
  Claim C9. When every confidence the capability returns lies in [0,100], every
  confidence that a run of the batch classifier logs, and every confidence that the
  consistency checker prints, lies in [0,1].
\<close>

theorem confidence_reported_in_unit_interval:
  assumes "confidence_in_range svc"
  shows "(classify_images svc st = Inr (st', out)
            \<and> (l, ClassifiedAs p c) \<in> set (logged st')
            \<and> (l, ClassifiedAs p c) \<notin> set (logged st)
          \<longrightarrow> 0 \<le> c \<and> c \<le> 1)
       \<and> (Confidence c' \<in> set (test_prediction_consistency svc pipeline f)
          \<longrightarrow> 0 \<le> c' \<and> c' \<le> 1)"
proof (intro conjI impI)
  assume a: "classify_images svc st = Inr (st', out)
            \<and> (l, ClassifiedAs p c) \<in> set (logged st')
            \<and> (l, ClassifiedAs p c) \<notin> set (logged st)"
  with run_logged[of svc st st' out] assms have "good_entry (l, ClassifiedAs p c)" by blast
  then show "0 \<le> c" "c \<le> 1" by (simp_all add: good_entry_def)
next
  assume "Confidence c' \<in> set (test_prediction_consistency svc pipeline f)"
  then have "Confidence c' \<in> set (check_cases svc pipeline f test_cases)"
    by (simp add: test_prediction_consistency_def)
  from check_cases_conf[OF assms this] show "0 \<le> c'" "c' \<le> 1" by simp_all
qed

theorem confidence_reported_in_unit_interval_witness:
  "confidence_in_range demo_service
   \<and> classify_images demo_service demo_state
       = Inr (\<lparr>fs = demo_final_fs, logged = demo_log\<rparr>, Some (demo_tally, 3))
   \<and> (INFO, ClassifiedAs ''No_DR'' (199 / 200)) \<in> set demo_log
   \<and> (INFO, ClassifiedAs ''No_DR'' (199 / 200)) \<notin> set (logged demo_state)
   \<and> Confidence (9 / 10) \<in> set (test_prediction_consistency demo_service demo_pipeline demo_final_fs)
   \<and> (0::real) \<le> 199 / 200 \<and> (199::real) / 200 \<le> 1
   \<and> (0::real) \<le> 9 / 10 \<and> (9::real) / 10 \<le> 1"
proof -
  have m1: "(INFO, ClassifiedAs ''No_DR'' (199 / 200)) \<in> set demo_log"
    by (simp add: demo_log_def)
  have m2: "(INFO, ClassifiedAs ''No_DR'' (199 / 200)) \<notin> set (logged demo_state)"
    by (simp add: demo_state_def)
  have m3: "Confidence (9 / 10)
      \<in> set (test_prediction_consistency demo_service demo_pipeline demo_final_fs)"
    by (simp add: demo_check demo_report_def)
  from confidence_reported_in_unit_interval[OF demo_confidence_in_range,
      of demo_state "\<lparr>fs = demo_final_fs, logged = demo_log\<rparr>" "Some (demo_tally, 3)"
         INFO "''No_DR''" "199 / 200" "9 / 10" demo_pipeline demo_final_fs]
    demo_confidence_in_range demo_run m1 m2 m3
  show ?thesis by simp
qed

section \<open>Failed prediction attempts\<close>

lemma predict_fails:
  assumes "prediction_attempt_fails svc img (fs st)"
  shows "predict_image_using_django_service svc img st =
           (logger (fst (failure_entry svc img (fs st))) (snd (failure_entry svc img (fs st))) st,
            None)"
  using assms
  by (auto simp: prediction_attempt_fails_def predict_image_using_django_service_def
        failure_entry_def split: sum.splits option.splits)

lemma predict_None_iff:
  "(snd (predict_image_using_django_service svc img st) = None)
     = prediction_attempt_fails svc img (fs st)"
  by (auto simp: prediction_attempt_fails_def predict_image_using_django_service_def
           split: sum.splits option.splits)

text \<open>
  Claim C4. When the prediction attempt for an image fails, the iteration for that
  image only adds three lines to the log (the image being processed, the error, the
  warning that it was not classified): the file system, the tally and the processed
  count are as before, and the loop goes on with the remaining images.
\<close>

theorem failed_prediction_is_skipped:
  assumes "prediction_attempt_fails svc img_path (fs st)"
  shows "classify_loop svc (img_path # rest) (st, results, processed) =
           classify_loop svc rest
             (st\<lparr>logged := logged st @
                    [(INFO, Processing (name_of img_path)),
                     failure_entry svc img_path (fs st),
                     (WARNING, FailedToClassify (name_of img_path))]\<rparr>,
              results, processed)
         \<and> fst (failure_entry svc img_path (fs st)) = ERROR"
proof -
  have "classify_step svc img_path (st, results, processed) =
      Inr (st\<lparr>logged := logged st @
                    [(INFO, Processing (name_of img_path)),
                     failure_entry svc img_path (fs st),
                     (WARNING, FailedToClassify (name_of img_path))]\<rparr>,
              results, processed)"
    using assms predict_fails[of svc img_path "logger INFO (Processing (name_of img_path)) st"]
    by (simp add: classify_step_def logger_def)
  moreover have "fst (failure_entry svc img_path (fs st)) = ERROR"
    by (simp add: failure_entry_def split: sum.splits)
  ultimately show ?thesis by simp
qed

theorem failed_prediction_is_skipped_witness:
  "prediction_attempt_fails demo_service [''colored_images'', ''more'', ''blurred.JPEG''] (fs demo_state)
   \<and> classify_loop demo_service [[''colored_images'', ''more'', ''blurred.JPEG'']]
        (demo_state, demo_tally, 3)
      = Inr (\<lparr>fs = demo_fs,
              logged = [(INFO, Processing ''blurred.JPEG''),
                        (ERROR, PredictionFailed [''colored_images'', ''more'', ''blurred.JPEG'']
                                  ''unreadable''),
                        (WARNING, FailedToClassify ''blurred.JPEG'')]\<rparr>,
             demo_tally, 3)"
proof -
  have h: "prediction_attempt_fails demo_service
             [''colored_images'', ''more'', ''blurred.JPEG''] (fs demo_state)"
    by (simp add: prediction_attempt_fails_def open_rb_def demo_defs)
  from failed_prediction_is_skipped[OF h, of "[]" demo_tally 3] h
  show ?thesis
    by (simp add: failure_entry_def open_rb_def name_of_def demo_defs)
qed

section \<open>Early return\<close>

lemma images_of_walk_Nil [simp]: "images_of_walk [] = []"
  by (simp add: images_of_walk_def)

lemma images_of_walk_Cons [simp]:
  "images_of_walk ((d, ds, names) # ws) =
     [d @ [file]. file \<leftarrow> names, is_image_name file] @ images_of_walk ws"
  by (simp add: images_of_walk_def)

lemma images_of_walk_append [simp]:
  "images_of_walk (xs @ ys) = images_of_walk xs @ images_of_walk ys"
  by (simp add: images_of_walk_def)

lemma images_of_walk_concat:
  "images_of_walk (concat xss) = concat (map images_of_walk xss)"
  by (induction xss) simp_all

lemma images_of_walk_concat_empty:
  "(images_of_walk (concat xss) = []) = (\<forall>xs\<in>set xss. images_of_walk xs = [])"
  by (induction xss) simp_all

lemma files_comprehension_empty:
  "([dirpath @ [file]. file \<leftarrow> [k. (k, File _ _) \<leftarrow> es], is_image_name file] = [])
     = (\<forall>(k, n)\<in>set es. case n of File _ _ \<Rightarrow> \<not> is_image_name k | Dir _ \<Rightarrow> True)"
  by (induction es) (auto split: node.splits)

lemma walk_Dir:
  "walk dirpath (Dir es) =
     (dirpath, [k. (k, Dir _) \<leftarrow> es], [k. (k, File _ _) \<leftarrow> es]) # concat (sub_walks dirpath es)"
  by (simp add: sub_walks_def)

lemma sub_walks_empty:
  assumes "\<And>k n x. (k, n) \<in> set es \<Longrightarrow> n = Dir x \<Longrightarrow>
             (images_of_walk (walk (dirpath @ [k]) n) = []) = (\<not> contains_image n)"
  shows "(\<forall>xs\<in>set (sub_walks dirpath es). images_of_walk xs = [])
      = (\<forall>(k, n)\<in>set es. case n of File _ _ \<Rightarrow> True | Dir _ \<Rightarrow> \<not> contains_image n)"
  using assms
proof (induction es)
  case Nil
  show ?case by (simp add: sub_walks_def)
next
  case (Cons e es)
  obtain k n where e: "e = (k, n)" by (cases e)
  have ih: "(\<forall>xs\<in>set (sub_walks dirpath es). images_of_walk xs = [])
      = (\<forall>(k, n)\<in>set es. case n of File _ _ \<Rightarrow> True | Dir _ \<Rightarrow> \<not> contains_image n)"
    by (rule Cons.IH) (rule Cons.prems, simp_all)
  have hd: "(images_of_walk (case n of Dir _ \<Rightarrow> walk (dirpath @ [k]) n | File _ _ \<Rightarrow> []) = [])
      = (case n of File _ _ \<Rightarrow> True | Dir _ \<Rightarrow> \<not> contains_image n)"
  proof (cases n)
    case (File c m)
    then show ?thesis by simp
  next
    case (Dir x)
    have "(images_of_walk (walk (dirpath @ [k]) n) = []) = (\<not> contains_image n)"
      by (rule Cons.prems[of k n x]) (simp_all add: e Dir)
    then show ?thesis by (simp only: Dir node.case)
  qed
  have "sub_walks dirpath (e # es) =
      (case n of Dir _ \<Rightarrow> walk (dirpath @ [k]) n | File _ _ \<Rightarrow> []) # sub_walks dirpath es"
    by (simp add: sub_walks_def e)
  then show ?case
    using ih hd by (simp add: e)
qed

lemma contains_image_Dir:
  "(\<not> contains_image (Dir es)) =
     ((\<forall>(k, n)\<in>set es. case n of File _ _ \<Rightarrow> \<not> is_image_name k | Dir _ \<Rightarrow> True)
        \<and> (\<forall>(k, n)\<in>set es. case n of File _ _ \<Rightarrow> True | Dir _ \<Rightarrow> \<not> contains_image n))"
proof -
  have pointwise: "(\<not> (case n of File _ _ \<Rightarrow> is_image_name k | Dir _ \<Rightarrow> contains_image n)) =
      ((case n of File _ _ \<Rightarrow> \<not> is_image_name k | Dir _ \<Rightarrow> True)
        \<and> (case n of File _ _ \<Rightarrow> True | Dir _ \<Rightarrow> \<not> contains_image n))" for k n
    by (cases n) simp_all
  have "(\<not> contains_image (Dir es)) =
      (\<forall>(k, n)\<in>set es. \<not> (case n of File _ _ \<Rightarrow> is_image_name k | Dir _ \<Rightarrow> contains_image n))"
    by (simp add: list_ex_iff case_prod_beta)
  also have "\<dots> = (\<forall>(k, n)\<in>set es.
        (case n of File _ _ \<Rightarrow> \<not> is_image_name k | Dir _ \<Rightarrow> True)
        \<and> (case n of File _ _ \<Rightarrow> True | Dir _ \<Rightarrow> \<not> contains_image n))"
    unfolding pointwise ..
  also have "\<dots> = ((\<forall>(k, n)\<in>set es. case n of File _ _ \<Rightarrow> \<not> is_image_name k | Dir _ \<Rightarrow> True)
        \<and> (\<forall>(k, n)\<in>set es. case n of File _ _ \<Rightarrow> True | Dir _ \<Rightarrow> \<not> contains_image n))"
    by blast
  finally show ?thesis .
qed

lemma walk_no_images: "(images_of_walk (walk dirpath n) = []) = (\<not> contains_image n)"
proof (induction dirpath n rule: walk.induct)
  case (1 dirpath c m)
  show ?case by simp
next
  case (2 dirpath es)
  have sub: "(\<forall>xs\<in>set (sub_walks dirpath es). images_of_walk xs = [])
      = (\<forall>(k, n)\<in>set es. case n of File _ _ \<Rightarrow> True | Dir _ \<Rightarrow> \<not> contains_image n)"
    by (rule sub_walks_empty) (rule "2", assumption, rule refl, assumption)
  show ?case
    unfolding walk_Dir images_of_walk_Cons append_is_Nil_conv files_comprehension_empty
      images_of_walk_concat_empty sub contains_image_Dir ..
qed

lemma find_image_files_empty:
  "(find_image_files directory f = []) =
     (case lookup directory f of None \<Rightarrow> True | Some n \<Rightarrow> \<not> contains_image n)"
  using walk_no_images
  by (auto simp: find_image_files_def split: option.splits)

text \<open>
  Claim C3. When the source directory does not exist, or it exists and no file below it,
  at any depth, has a name whose lower-cased suffix is in the allow-list, the run returns
  early: it produces no tally, its last log line is the informational message, and the
  file system, hence the output directory, is the one it started from.
\<close>

theorem early_return_leaves_output_untouched:
  assumes "\<not> path_exists SOURCE_DIR (fs st)
           \<or> (\<exists>n. lookup SOURCE_DIR (fs st) = Some n \<and> \<not> contains_image n)"
  shows "\<exists>m st'. classify_images svc st = Inr (st', None)
           \<and> fs st' = fs st
           \<and> lookup OUTPUT_DIR (fs st') = lookup OUTPUT_DIR (fs st)
           \<and> logged st' = logged st @ [(INFO, Starting), (INFO, Separator), m, (INFO, PleaseAddImages)]
           \<and> m \<in> {(ERROR, SourceNotFound SOURCE_DIR), (WARNING, NoImagesFound SOURCE_DIR)}"
proof (cases "path_exists SOURCE_DIR (fs st)")
  case False
  then show ?thesis
    by (simp add: classify_images_def Let_def)
next
  case True
  with assms have "find_image_files SOURCE_DIR (fs st) = []"
    by (auto simp: find_image_files_empty)
  with True show ?thesis
    by (simp add: classify_images_def Let_def)
qed

theorem early_return_leaves_output_untouched_witness:
  "\<not> path_exists SOURCE_DIR (Dir [(''classified_images'', demo_output)])
   \<and> (\<exists>n. lookup SOURCE_DIR (Dir [(''colored_images'', Dir [(''notes.txt'', File ''N'' 2)])]) = Some n
          \<and> \<not> contains_image n)
   \<and> (\<exists>lg. classify_images demo_service \<lparr>fs = Dir [(''classified_images'', demo_output)], logged = []\<rparr>
        = Inr (\<lparr>fs = Dir [(''classified_images'', demo_output)], logged = lg\<rparr>, None))
   \<and> (\<exists>lg. classify_images demo_service
              \<lparr>fs = Dir [(''colored_images'', Dir [(''notes.txt'', File ''N'' 2)])], logged = []\<rparr>
        = Inr (\<lparr>fs = Dir [(''colored_images'', Dir [(''notes.txt'', File ''N'' 2)])], logged = lg\<rparr>,
               None))"
proof -
  have h1: "\<not> path_exists SOURCE_DIR (Dir [(''classified_images'', demo_output)])"
    by (simp add: path_exists_def SOURCE_DIR_def)
  have h2: "\<exists>n. lookup SOURCE_DIR (Dir [(''colored_images'', Dir [(''notes.txt'', File ''N'' 2)])])
                  = Some n \<and> \<not> contains_image n"
    by (simp add: SOURCE_DIR_def is_image_name_def suffix_def lower_def lower_char_def
          image_extensions_def)
  have r1: "\<exists>lg. classify_images demo_service
                   \<lparr>fs = Dir [(''classified_images'', demo_output)], logged = []\<rparr>
        = Inr (\<lparr>fs = Dir [(''classified_images'', demo_output)], logged = lg\<rparr>, None)"
  proof -
    from early_return_leaves_output_untouched
      [of "\<lparr>fs = Dir [(''classified_images'', demo_output)], logged = []\<rparr>" demo_service] h1
    obtain st' where r: "classify_images demo_service
        \<lparr>fs = Dir [(''classified_images'', demo_output)], logged = []\<rparr> = Inr (st', None)"
      "fs st' = Dir [(''classified_images'', demo_output)]"
      by auto
    obtain f lg where "st' = \<lparr>fs = f, logged = lg\<rparr>" by (cases st')
    with r show ?thesis by auto
  qed
  have r2: "\<exists>lg. classify_images demo_service
              \<lparr>fs = Dir [(''colored_images'', Dir [(''notes.txt'', File ''N'' 2)])], logged = []\<rparr>
        = Inr (\<lparr>fs = Dir [(''colored_images'', Dir [(''notes.txt'', File ''N'' 2)])], logged = lg\<rparr>,
               None)"
  proof -
    from early_return_leaves_output_untouched
      [of "\<lparr>fs = Dir [(''colored_images'', Dir [(''notes.txt'', File ''N'' 2)])], logged = []\<rparr>"
          demo_service] h2
    obtain st' where r: "classify_images demo_service
        \<lparr>fs = Dir [(''colored_images'', Dir [(''notes.txt'', File ''N'' 2)])], logged = []\<rparr>
          = Inr (st', None)"
      "fs st' = Dir [(''colored_images'', Dir [(''notes.txt'', File ''N'' 2)])]"
      by auto
    obtain f lg where "st' = \<lparr>fs = f, logged = lg\<rparr>" by (cases st')
    with r show ?thesis by auto
  qed
  from h1 h2 r1 r2 show ?thesis by blast
qed

section \<open>The consistency checker\<close>

lemma get_prediction_fails:
  assumes "prediction_attempt_fails svc img f"
  shows "\<exists>r. get_prediction svc img expected f = [r] \<and> is_failure_report r"
  using assms
  by (auto simp: prediction_attempt_fails_def get_prediction_def split: sum.splits option.splits)

lemma get_prediction_predict:
  "get_prediction svc img expected (fs st) =
     (case snd (predict_image_using_django_service svc img st) of
        Some (p, c) \<Rightarrow>
          [Predicted p, Confidence c, if p = expected then MatchesFolder else Mismatch expected p]
      | None \<Rightarrow> get_prediction svc img expected (fs st))"
  by (auto simp: get_prediction_def predict_image_using_django_service_def
           split: sum.splits option.splits)

lemma check_case_not_found:
  "\<not> path_exists img f \<Longrightarrow> check_case svc pipeline f (img, expected) = [ImageNotFound img]"
  by (simp add: check_case_def)

lemma check_case_preprocess_fails:
  assumes "path_exists img f" and "preprocessing_fails pipeline img f"
  shows "\<exists>e. check_case svc pipeline f (img, expected) =
           [TestingFrom (name_of (butlast img)), ImageName (name_of img),
            ErrorPreprocessing img e, FailedToPreprocess]"
  using assms
  by (auto simp: check_case_def preprocessing_fails_def preprocess_image_def isl_def
           split: sum.splits)

lemma check_case_reaches_prediction:
  assumes "path_exists img f" and "\<not> preprocessing_fails pipeline img f"
  shows "check_case svc pipeline f (img, expected) =
           [TestingFrom (name_of (butlast img)), ImageName (name_of img)]
             @ get_prediction svc img expected f"
  using assms
  by (auto simp: check_case_def preprocessing_fails_def preprocess_image_def
           split: sum.splits)

text \<open>
  Claim C8. For a test case at the head of the list of cases: when the file does not
  exist, the case prints the not-found line only; when preprocessing fails, or the
  prediction attempt fails, the case prints a failure line; in none of these situations
  does it print a verdict (match or mismatch), and in each the cases that follow are
  processed as they would be on their own.
\<close>

theorem checker_reports_failures_and_continues:
  "(\<not> path_exists img f \<longrightarrow>
      check_cases svc pipeline f ((img, expected) # rest)
        = ImageNotFound img # check_cases svc pipeline f rest)
   \<and> (path_exists img f \<and> preprocessing_fails pipeline img f \<longrightarrow>
        (\<exists>e. check_cases svc pipeline f ((img, expected) # rest)
           = [TestingFrom (name_of (butlast img)), ImageName (name_of img),
              ErrorPreprocessing img e, FailedToPreprocess]
               @ check_cases svc pipeline f rest))
   \<and> (path_exists img f \<and> \<not> preprocessing_fails pipeline img f
        \<and> prediction_attempt_fails svc img f \<longrightarrow>
        (\<exists>r. is_failure_report r
           \<and> check_cases svc pipeline f ((img, expected) # rest)
               = [TestingFrom (name_of (butlast img)), ImageName (name_of img), r]
                  @ check_cases svc pipeline f rest))
   \<and> (\<not> path_exists img f \<or> preprocessing_fails pipeline img f
        \<or> prediction_attempt_fails svc img f \<longrightarrow>
        \<not> list_ex is_verdict (check_case svc pipeline f (img, expected)))"
proof (intro conjI impI)
  assume "\<not> path_exists img f"
  then show "check_cases svc pipeline f ((img, expected) # rest)
        = ImageNotFound img # check_cases svc pipeline f rest"
    by (simp add: check_case_not_found)
next
  assume "path_exists img f \<and> preprocessing_fails pipeline img f"
  then obtain e where "check_case svc pipeline f (img, expected) =
           [TestingFrom (name_of (butlast img)), ImageName (name_of img),
            ErrorPreprocessing img e, FailedToPreprocess]"
    using check_case_preprocess_fails by blast
  then show "\<exists>e. check_cases svc pipeline f ((img, expected) # rest)
           = [TestingFrom (name_of (butlast img)), ImageName (name_of img),
              ErrorPreprocessing img e, FailedToPreprocess]
               @ check_cases svc pipeline f rest"
    by simp
next
  assume a: "path_exists img f \<and> \<not> preprocessing_fails pipeline img f
        \<and> prediction_attempt_fails svc img f"
  then obtain r where r: "get_prediction svc img expected f = [r]" "is_failure_report r"
    using get_prediction_fails by blast
  with a check_case_reaches_prediction[of img f pipeline svc expected]
  show "\<exists>r. is_failure_report r
           \<and> check_cases svc pipeline f ((img, expected) # rest)
               = [TestingFrom (name_of (butlast img)), ImageName (name_of img), r]
                  @ check_cases svc pipeline f rest"
    by auto
next
  assume a: "\<not> path_exists img f \<or> preprocessing_fails pipeline img f
        \<or> prediction_attempt_fails svc img f"
  show "\<not> list_ex is_verdict (check_case svc pipeline f (img, expected))"
  proof (cases "path_exists img f")
    case False
    then show ?thesis by (simp add: check_case_not_found)
  next
    case ex: True
    show ?thesis
    proof (cases "preprocessing_fails pipeline img f")
      case True
      with ex check_case_preprocess_fails[of img f pipeline svc expected]
      show ?thesis by auto
    next
      case False
      with a ex have "prediction_attempt_fails svc img f" by simp
      then obtain r where r: "get_prediction svc img expected f = [r]" "is_failure_report r"
        using get_prediction_fails by blast
      then have "\<not> is_verdict r" by (cases r) simp_all
      with r ex False check_case_reaches_prediction[of img f pipeline svc expected]
      show ?thesis by simp
    qed
  qed
qed

theorem checker_reports_failures_and_continues_witness:
  "\<not> path_exists [''classified_images'', ''Moderate'', ''000c1434d8d7.png''] demo_final_fs
   \<and> check_cases demo_service demo_pipeline demo_final_fs
        [([''classified_images'', ''Moderate'', ''000c1434d8d7.png''], ''Moderate'')]
       = [ImageNotFound [''classified_images'', ''Moderate'', ''000c1434d8d7.png'']]
   \<and> path_exists [''classified_images'', ''No_DR'', ''0151781fe50b.png''] demo_final_fs
   \<and> preprocessing_fails demo_pipeline
        [''classified_images'', ''No_DR'', ''0151781fe50b.png''] demo_final_fs
   \<and> (\<exists>e. check_cases demo_service demo_pipeline demo_final_fs
              [([''classified_images'', ''No_DR'', ''0151781fe50b.png''], ''No_DR'')]
            = [TestingFrom ''No_DR'', ImageName ''0151781fe50b.png'',
               ErrorPreprocessing [''classified_images'', ''No_DR'', ''0151781fe50b.png''] e,
               FailedToPreprocess])
   \<and> path_exists [''colored_images'', ''more'', ''blurred.JPEG''] demo_final_fs
   \<and> \<not> preprocessing_fails demo_pipeline [''colored_images'', ''more'', ''blurred.JPEG'']
          demo_final_fs
   \<and> prediction_attempt_fails demo_service [''colored_images'', ''more'', ''blurred.JPEG'']
        demo_final_fs
   \<and> (\<exists>r. is_failure_report r
          \<and> check_cases demo_service demo_pipeline demo_final_fs
               [([''colored_images'', ''more'', ''blurred.JPEG''], ''Mild'')]
             = [TestingFrom ''more'', ImageName ''blurred.JPEG'', r])
   \<and> \<not> list_ex is_verdict
         (check_case demo_service demo_pipeline demo_final_fs
            ([''colored_images'', ''more'', ''blurred.JPEG''], ''Mild''))"
proof -
  have a: "\<not> path_exists [''classified_images'', ''Moderate'', ''000c1434d8d7.png''] demo_final_fs"
    by (simp add: path_exists_def demo_defs)
  have b: "path_exists [''classified_images'', ''No_DR'', ''0151781fe50b.png''] demo_final_fs
      \<and> preprocessing_fails demo_pipeline
           [''classified_images'', ''No_DR'', ''0151781fe50b.png''] demo_final_fs"
    by (simp add: path_exists_def preprocessing_fails_def open_rb_def demo_pipeline_def demo_defs)
  have c: "path_exists [''colored_images'', ''more'', ''blurred.JPEG''] demo_final_fs
      \<and> \<not> preprocessing_fails demo_pipeline [''colored_images'', ''more'', ''blurred.JPEG'']
             demo_final_fs
      \<and> prediction_attempt_fails demo_service [''colored_images'', ''more'', ''blurred.JPEG'']
             demo_final_fs"
    by (simp add: path_exists_def preprocessing_fails_def prediction_attempt_fails_def
          open_rb_def demo_pipeline_def demo_defs)
  from
    checker_reports_failures_and_continues
      [of "[''classified_images'', ''Moderate'', ''000c1434d8d7.png'']" demo_final_fs
          demo_service demo_pipeline "''Moderate''" "[]"]
    checker_reports_failures_and_continues
      [of "[''classified_images'', ''No_DR'', ''0151781fe50b.png'']" demo_final_fs
          demo_service demo_pipeline "''No_DR''" "[]"]
    checker_reports_failures_and_continues
      [of "[''colored_images'', ''more'', ''blurred.JPEG'']" demo_final_fs
          demo_service demo_pipeline "''Mild''" "[]"]
    a b c
  show ?thesis by (simp add: name_of_def)
qed

lemma preprocess_image_agree:
  assumes "\<And>b e. (p1 b = Inl e) = (p2 b = Inl e)"
  shows "fst (preprocess_image p1 img f) = fst (preprocess_image p2 img f)
       \<and> (snd (preprocess_image p1 img f) = None) = (snd (preprocess_image p2 img f) = None)"
proof (cases "open_rb img f")
  case (Inl e)
  then show ?thesis by (simp add: preprocess_image_def)
next
  case (Inr b)
  show ?thesis
  proof (cases "p1 b")
    case (Inl e)
    with assms have "p2 b = Inl e" by simp
    with Inl Inr show ?thesis by (simp add: preprocess_image_def)
  next
    case r1: (Inr a)
    have "\<exists>a'. p2 b = Inr a'"
    proof (cases "p2 b")
      case (Inl e)
      with assms have "p1 b = Inl e" by simp
      with r1 show ?thesis by simp
    next
      case (Inr a')
      then show ?thesis by blast
    qed
    with r1 Inr show ?thesis by (auto simp: preprocess_image_def)
  qed
qed

lemma check_case_agree:
  assumes "\<And>b e. (p1 b = Inl e) = (p2 b = Inl e)"
  shows "check_case svc p1 f tc = check_case svc p2 f tc"
proof -
  obtain img expected where tc: "tc = (img, expected)" by (cases tc)
  obtain o1 a1 where r1: "preprocess_image p1 img f = (o1, a1)"
    by (cases "preprocess_image p1 img f")
  obtain o2 a2 where r2: "preprocess_image p2 img f = (o2, a2)"
    by (cases "preprocess_image p2 img f")
  from preprocess_image_agree[of p1 p2 img f, OF assms] r1 r2
  have "o1 = o2" "(a1 = None) = (a2 = None)" by simp_all
  with r1 r2 show ?thesis
    by (cases a1; cases a2) (simp_all add: check_case_def tc)
qed

lemma check_cases_agree:
  assumes "\<And>b e. (p1 b = Inl e) = (p2 b = Inl e)"
  shows "check_cases svc p1 f tcs = check_cases svc p2 f tcs"
  by (induction tcs) (simp_all add: check_case_agree[of p1 p2, OF assms])

lemma check_case_prediction:
  assumes "Predicted l \<in> set (check_case svc pipeline f (img, expected))"
    and "Confidence c \<in> set (check_case svc pipeline f (img, expected))"
    and "fs st = f"
  shows "snd (predict_image_using_django_service svc img st) = Some (l, c)"
proof -
  from assms(1) have ex: "path_exists img f"
    by (auto simp: check_case_def split: if_splits)
  have np: "\<not> preprocessing_fails pipeline img f"
  proof
    assume "preprocessing_fails pipeline img f"
    with ex check_case_preprocess_fails[of img f pipeline svc expected] assms(1)
    show False by auto
  qed
  from check_case_reaches_prediction[OF ex np] assms(1,2)
  have g: "Predicted l \<in> set (get_prediction svc img expected f)"
     "Confidence c \<in> set (get_prediction svc img expected f)"
    by simp_all
  then show ?thesis
    using assms(3)
    by (auto simp: get_prediction_def predict_image_using_django_service_def
        split: sum.splits option.splits if_splits)
qed

text \<open>
  Claim C7. The label and the confidence that the checker prints for a test case are
  those that \<^verbatim>\<open>predict_image_using_django_service\<close> of the batch classifier returns for the
  same file and the same capability, and conversely. The array that preprocessing
  computes does not reach the output: two pipelines that raise on the same inputs, with
  whatever arrays they compute otherwise, give the same report.
\<close>

theorem checker_uses_same_capability:
  assumes "\<forall>b e. (p1 b = Inl e) = (p2 b = Inl e)"
  shows "test_prediction_consistency svc p1 f = test_prediction_consistency svc p2 f
       \<and> (Predicted l \<in> set (check_case svc p1 f (img, expected))
            \<and> Confidence c \<in> set (check_case svc p1 f (img, expected))
          \<longrightarrow> snd (predict_image_using_django_service svc img \<lparr>fs = f, logged = lg\<rparr>)
                = Some (l, c))
       \<and> (path_exists img f \<and> \<not> preprocessing_fails p1 img f
            \<and> snd (predict_image_using_django_service svc img \<lparr>fs = f, logged = lg\<rparr>)
                = Some (l, c)
          \<longrightarrow> check_case svc p1 f (img, expected) =
                [TestingFrom (name_of (butlast img)), ImageName (name_of img),
                 Predicted l, Confidence c,
                 if l = expected then MatchesFolder else Mismatch expected l])"
proof (intro conjI impI)
  from assms have a: "\<And>b e. (p1 b = Inl e) = (p2 b = Inl e)" by blast
  show "test_prediction_consistency svc p1 f = test_prediction_consistency svc p2 f"
    by (simp add: test_prediction_consistency_def check_cases_agree[of p1 p2, OF a])
next
  assume "Predicted l \<in> set (check_case svc p1 f (img, expected))
            \<and> Confidence c \<in> set (check_case svc p1 f (img, expected))"
  then show "snd (predict_image_using_django_service svc img \<lparr>fs = f, logged = lg\<rparr>)
      = Some (l, c)"
    using check_case_prediction[of l svc p1 f img expected c "\<lparr>fs = f, logged = lg\<rparr>"] by simp
next
  assume a: "path_exists img f \<and> \<not> preprocessing_fails p1 img f
            \<and> snd (predict_image_using_django_service svc img \<lparr>fs = f, logged = lg\<rparr>)
                = Some (l, c)"
  with get_prediction_predict[of svc img expected "\<lparr>fs = f, logged = lg\<rparr>"]
  have "get_prediction svc img expected f =
      [Predicted l, Confidence c, if l = expected then MatchesFolder else Mismatch expected l]"
    by simp
  with a check_case_reaches_prediction[of img f p1 svc expected]
  show "check_case svc p1 f (img, expected) =
                [TestingFrom (name_of (butlast img)), ImageName (name_of img),
                 Predicted l, Confidence c,
                 if l = expected then MatchesFolder else Mismatch expected l]"
    by simp
qed

theorem checker_uses_same_capability_witness:
  "(\<forall>b e. (demo_pipeline b = Inl e) = (demo_pipeline' b = Inl e))
   \<and> test_prediction_consistency demo_service demo_pipeline' demo_final_fs = demo_report
   \<and> Predicted ''Mild'' \<in> set (check_case demo_service demo_pipeline demo_final_fs
        ([''classified_images'', ''Mild'', ''0773a1c326ad.png''], ''Mild''))
   \<and> Confidence (9 / 10) \<in> set (check_case demo_service demo_pipeline demo_final_fs
        ([''classified_images'', ''Mild'', ''0773a1c326ad.png''], ''Mild''))
   \<and> path_exists [''classified_images'', ''Mild'', ''0773a1c326ad.png''] demo_final_fs
   \<and> \<not> preprocessing_fails demo_pipeline
          [''classified_images'', ''Mild'', ''0773a1c326ad.png''] demo_final_fs
   \<and> snd (predict_image_using_django_service demo_service
            [''classified_images'', ''Mild'', ''0773a1c326ad.png'']
            \<lparr>fs = demo_final_fs, logged = []\<rparr>) = Some (''Mild'', 9 / 10)"
proof -
  have h: "\<forall>b e. (demo_pipeline b = Inl e) = (demo_pipeline' b = Inl e)"
    by (simp add: demo_pipeline_def demo_pipeline'_def)
  have m: "Predicted ''Mild'' \<in> set (check_case demo_service demo_pipeline demo_final_fs
        ([''classified_images'', ''Mild'', ''0773a1c326ad.png''], ''Mild''))
      \<and> Confidence (9 / 10) \<in> set (check_case demo_service demo_pipeline demo_final_fs
        ([''classified_images'', ''Mild'', ''0773a1c326ad.png''], ''Mild''))"
    by (simp add: check_defs demo_defs run_defs)
  have e: "path_exists [''classified_images'', ''Mild'', ''0773a1c326ad.png''] demo_final_fs
      \<and> \<not> preprocessing_fails demo_pipeline
          [''classified_images'', ''Mild'', ''0773a1c326ad.png''] demo_final_fs"
    by (simp add: path_exists_def preprocessing_fails_def open_rb_def demo_pipeline_def demo_defs)
  from checker_uses_same_capability[OF h,
      of demo_service demo_final_fs "''Mild''"
         "[''classified_images'', ''Mild'', ''0773a1c326ad.png'']" "''Mild''" "9 / 10" "[]"]
    h m e demo_check
  show ?thesis by simp
qed

section \<open>File system operations, set-up and loop\<close>

lemma lookup_append:
  "lookup (p @ q) f = (case lookup p f of None \<Rightarrow> None | Some n \<Rightarrow> lookup q n)"
  by (induction p arbitrary: f) (auto split: node.splits option.splits)

lemma lookup_put_other_head:
  "a \<noteq> b \<Longrightarrow> lookup (a # p) (put (b # q) new f) = lookup (a # p) f"
  by (cases f) (simp_all add: update_conv' map_of_map_entry)

lemma lookup_put_same_head:
  "q \<noteq> [] \<Longrightarrow> lookup (a # p) (put (a # q) new f) =
     (case lookup [a] f of None \<Rightarrow> None | Some n \<Rightarrow> lookup p (put q new n))"
  by (cases f) (simp_all add: map_of_map_entry split: option.splits)

lemma lookup_put_single:
  "lookup (a # p) (put [a] new f) = (case f of File _ _ \<Rightarrow> None | Dir _ \<Rightarrow> lookup p new)"
  by (cases f) (simp_all add: update_conv')

lemma lookup_remove_other_head:
  "a \<noteq> b \<Longrightarrow> lookup (a # p) (remove (b # q) f) = lookup (a # p) f"
  by (cases f) (simp_all add: delete_conv' map_of_map_entry)

lemma lookup_remove_single: "lookup (a # p) (remove [a] f) = None"
  by (cases f) (simp_all add: delete_conv')

lemma lookup_Cons_Some_root:
  "lookup (a # p) f = Some n \<Longrightarrow> \<exists>es. f = Dir es"
  by (cases f) simp_all

lemma put_root_kind: "(\<exists>es. put (a # p) new f = Dir es) = (\<exists>es. f = Dir es)"
  by (cases f) simp_all

lemma predict_snd: "snd (predict_image_using_django_service svc img st) = predicted svc img (fs st)"
  by (simp add: predicted_def predict_image_using_django_service_def
           split: sum.splits option.splits)

lemma predict_fst_fs: "fs (fst (predict_image_using_django_service svc img st)) = fs st"
  by (simp add: predict_image_using_django_service_def split: sum.splits option.splits)

lemma predict_fst_more:
  "\<exists>lg. fst (predict_image_using_django_service svc img st) = st\<lparr>logged := lg\<rparr>"
  by (auto simp: predict_image_using_django_service_def logger_def
      split: sum.splits option.splits intro: exI[of _ "logged st"])

lemma predicted_unfold:
  "predicted svc img f =
     (case open_rb img f of
        Inl e \<Rightarrow> None
      | Inr bytes \<Rightarrow>
          (case process_image svc bytes of
             Inl e \<Rightarrow> None
           | Inr r \<Rightarrow>
               if success r \<noteq> Some True then None
               else (case prediction r of
                       None \<Rightarrow> None
                     | Some p \<Rightarrow>
                         (case confidence r of None \<Rightarrow> None | Some c \<Rightarrow> Some (p, c / 100)))))"
  by (simp add: predicted_def predict_image_using_django_service_def
           split: sum.splits option.splits)

lemma predicted_open:
  "open_rb img f = open_rb img g \<Longrightarrow> predicted svc img f = predicted svc img g"
  by (simp add: predicted_unfold)

lemma classify_step_skip:
  assumes "classified_as svc (fs st) img = None"
  shows "\<exists>lg. classify_step svc img (st, res, k) = Inr (st\<lparr>logged := lg\<rparr>, res, k)"
proof -
  let ?st0 = "logger INFO (Processing (name_of img)) st"
  obtain st1 r where p: "predict_image_using_django_service svc img ?st0 = (st1, r)"
    by (cases "predict_image_using_django_service svc img ?st0")
  from predict_fst_more[of svc img ?st0] p obtain lg where st1: "st1 = st\<lparr>logged := lg\<rparr>"
    by (auto simp: logger_def)
  from predict_snd[of svc img ?st0] p have r: "r = predicted svc img (fs st)" by simp
  show ?thesis
  proof (cases r)
    case None
    with p st1 show ?thesis by (auto simp: classify_step_def logger_def)
  next
    case (Some pc)
    obtain q c where pc: "pc = (q, c)" by (cases pc)
    with Some r assms have "q = []" by (auto simp: classified_as_def split: if_splits)
    with p st1 Some pc show ?thesis by (auto simp: classify_step_def logger_def)
  qed
qed

lemma classify_step_classified:
  assumes "classified_as svc (fs st) img = Some p"
    and "classify_step svc img (st, res, k) = Inr (st', res', k')"
  shows "\<exists>n. copy2 img (OUTPUT_DIR @ [p, name_of img]) (fs st) = Inr (fs st')
           \<and> map_of res p = Some n \<and> res' = AList.update p (n + 1) res \<and> k' = k + 1"
proof -
  let ?st0 = "logger INFO (Processing (name_of img)) st"
  obtain st1 r where pr: "predict_image_using_django_service svc img ?st0 = (st1, r)"
    by (cases "predict_image_using_django_service svc img ?st0")
  from predict_fst_fs[of svc img ?st0] pr have st1: "fs st1 = fs st" by simp
  from predict_snd[of svc img ?st0] pr have r: "r = predicted svc img (fs st)" by simp
  from assms(1) r obtain c where rc: "r = Some (p, c)" and ne: "p \<noteq> []"
    by (auto simp: classified_as_def split: option.splits if_splits)
  from assms(2) pr rc ne st1 show ?thesis
    by (auto simp: classify_step_def split: sum.splits option.splits)
qed

lemma copy2_result:
  assumes "copy2 src dst f = Inr f'"
  shows "\<exists>c m dst'. lookup src f = Some (File c m) \<and> f' = put dst' (File c m) f
           \<and> (dst' = dst \<or> (\<exists>es. lookup dst f = Some (Dir es)) \<and> dst' = dst @ [name_of src])
           \<and> (\<exists>es. lookup (butlast dst') f = Some (Dir es))
           \<and> (\<forall>es. lookup dst' f \<noteq> Some (Dir es))"
  using assms
  by (auto simp: copy2_def Let_def split: option.splits node.splits if_splits)

lemma copy2_flat:
  assumes "copy2 src dst f = Inr f'" and "\<forall>es. lookup dst f \<noteq> Some (Dir es)"
  shows "\<exists>c m. lookup src f = Some (File c m) \<and> f' = put dst (File c m) f
           \<and> (\<exists>es. lookup (butlast dst) f = Some (Dir es))"
  using copy2_result[OF assms(1)] assms(2) by auto

lemma lookup_Cons:
  "lookup (a # p) f = (case lookup [a] f of None \<Rightarrow> None | Some n \<Rightarrow> lookup p n)"
  by (cases f) (simp_all split: option.splits)

lemma lookup_single_Dir: "lookup [a] (Dir es) = map_of es a"
  by (simp split: option.splits)

lemma put_single_Dir: "put [a] new (Dir es) = Dir (AList.update a new es)"
  by simp

lemma put_File: "put (a # p) new (File c m) = File c m"
  by simp

lemma lookup_File: "lookup (a # p) (File c m) = None"
  by simp

lemma remove_root_kind: "(\<exists>es. remove (a # p) f = Dir es) = (\<exists>es. f = Dir es)"
  by (cases f) simp_all

declare lookup.simps(2) [simp del] put.simps(2) [simp del] remove.simps(2) [simp del]



lemma step_frame:
  assumes "classify_step svc img (st, res, k) = Inr (st', res', k')"
    and "a \<noteq> ''classified_images''"
  shows "lookup (a # p) (fs st') = lookup (a # p) (fs st)"
proof (cases "classified_as svc (fs st) img")
  case None
  from classify_step_skip[OF None, of res k] assms(1) show ?thesis by auto
next
  case (Some l)
  from classify_step_classified[OF Some assms(1)]
  have "copy2 img (OUTPUT_DIR @ [l, name_of img]) (fs st) = Inr (fs st')" by blast
  from copy2_result[OF this] obtain c m dst' where
    f': "fs st' = put dst' (File c m) (fs st)"
    and d: "dst' = OUTPUT_DIR @ [l, name_of img] \<or> dst' = (OUTPUT_DIR @ [l, name_of img]) @ [name_of img]"
    by blast
  from d obtain q where "dst' = ''classified_images'' # q"
    by (auto simp: OUTPUT_DIR_def)
  with f' assms(2) show ?thesis by (simp add: lookup_put_other_head)
qed



lemma set_foldl_add_key: "set (foldl add_key ks ls) = set ks \<union> set ls"
  by (induction ls arbitrary: ks) (auto simp: add_key_def)

lemma distinct_foldl_add_key: "distinct ks \<Longrightarrow> distinct (foldl add_key ks ls)"
  by (induction ls arbitrary: ks) (auto simp: add_key_def)

lemma set_first_occurrences: "set (first_occurrences ls) = set ls"
  by (simp add: first_occurrences_def set_foldl_add_key)

lemma distinct_first_occurrences: "distinct (first_occurrences ls)"
  by (simp add: first_occurrences_def distinct_foldl_add_key)

lemma update_constant_entries:
  "AList.update l v (map (\<lambda>k. (k, v)) ks) = map (\<lambda>k. (k, v)) (add_key ks l)"
  by (induction ks) (auto simp: add_key_def)

lemma map_of_constant_entries:
  "map_of (map (\<lambda>k. (k, v)) ks) l = (if l \<in> set ks then Some v else None)"
  by (induction ks) auto

lemma init_results_entries:
  "foldl (\<lambda>d class_name. AList.update class_name v d) (map (\<lambda>k. (k, v)) ks) ls
     = map (\<lambda>k. (k, v)) (foldl add_key ks ls)"
  by (induction ls arbitrary: ks) (simp_all add: update_constant_entries)

lemma init_results_eq: "init_results labels = map (\<lambda>k. (k, 0)) (first_occurrences labels)"
  using init_results_entries[of 0 "[]" labels]
  by (simp add: init_results_def first_occurrences_def)

lemma mkdir_class:
  assumes "lookup OUTPUT_DIR f = Some (Dir (map (\<lambda>k. (k, Dir [])) ks))"
  shows "\<exists>f'. mkdir_exist_ok (OUTPUT_DIR @ [l]) f = Inr f'
           \<and> lookup OUTPUT_DIR f' = Some (Dir (map (\<lambda>k. (k, Dir [])) (add_key ks l)))
           \<and> (\<forall>a p. a \<noteq> ''classified_images'' \<longrightarrow> lookup (a # p) f' = lookup (a # p) f)"
proof -
  let ?o = "''classified_images''"
  from assms have o: "lookup [?o] f = Some (Dir (map (\<lambda>k. (k, Dir [])) ks))"
    by (simp add: OUTPUT_DIR_def)
  have ol: "lookup [?o, l] f = (if l \<in> set ks then Some (Dir []) else None)"
    using o by (simp add: lookup_Cons[of ?o "[l]"] lookup_single_Dir map_of_constant_entries)
  show ?thesis
  proof (cases "l \<in> set ks")
    case True
    with ol assms show ?thesis
      by (simp add: mkdir_exist_ok_def OUTPUT_DIR_def add_key_def)
  next
    case False
    have "lookup [?o] (put [?o, l] (Dir []) f)
        = Some (put [l] (Dir []) (Dir (map (\<lambda>k. (k, Dir [])) ks)))"
      using o by (simp add: lookup_put_same_head[of "[l]" ?o "[]"])
    then have "lookup [?o] (put [?o, l] (Dir []) f)
        = Some (Dir (map (\<lambda>k. (k, Dir [])) (add_key ks l)))"
      by (simp add: put_single_Dir update_constant_entries)
    with False ol o show ?thesis
      by (simp add: mkdir_exist_ok_def OUTPUT_DIR_def lookup_put_other_head)
  qed
qed

lemma mkdir_classes_result:
  assumes "lookup OUTPUT_DIR f = Some (Dir (map (\<lambda>k. (k, Dir [])) ks))"
  shows "\<exists>f'. mkdir_classes ls f = Inr f'
           \<and> lookup OUTPUT_DIR f' = Some (Dir (map (\<lambda>k. (k, Dir [])) (foldl add_key ks ls)))
           \<and> (\<forall>a p. a \<noteq> ''classified_images'' \<longrightarrow> lookup (a # p) f' = lookup (a # p) f)"
  using assms
proof (induction ls arbitrary: f ks)
  case Nil
  then show ?case by simp
next
  case (Cons l ls)
  from mkdir_class[OF Cons.prems, of l] obtain f1 where
    m: "mkdir_exist_ok (OUTPUT_DIR @ [l]) f = Inr f1"
    and o1: "lookup OUTPUT_DIR f1 = Some (Dir (map (\<lambda>k. (k, Dir [])) (add_key ks l)))"
    and fr1: "\<forall>a p. a \<noteq> ''classified_images'' \<longrightarrow> lookup (a # p) f1 = lookup (a # p) f"
    by blast
  from Cons.IH[OF o1] obtain f' where
    r: "mkdir_classes ls f1 = Inr f'"
    and o2: "lookup OUTPUT_DIR f' = Some (Dir (map (\<lambda>k. (k, Dir [])) (foldl add_key (add_key ks l) ls)))"
    and fr2: "\<forall>a p. a \<noteq> ''classified_images'' \<longrightarrow> lookup (a # p) f' = lookup (a # p) f1"
    by blast
  from m r o2 fr1 fr2 show ?case by simp
qed

lemma clear_output:
  assumes "(if path_exists OUTPUT_DIR f then rmtree OUTPUT_DIR f else Inr f) = Inr f1"
  shows "lookup OUTPUT_DIR f1 = None
       \<and> (\<forall>a p. a \<noteq> ''classified_images'' \<longrightarrow> lookup (a # p) f1 = lookup (a # p) f)
       \<and> (\<forall>c m. lookup OUTPUT_DIR f \<noteq> Some (File c m))
       \<and> ((\<exists>es. f1 = Dir es) = (\<exists>es. f = Dir es))"
proof (cases "path_exists OUTPUT_DIR f")
  case False
  with assms show ?thesis by (simp add: path_exists_def)
next
  case True
  with assms obtain es where "lookup OUTPUT_DIR f = Some (Dir es)" "f1 = remove OUTPUT_DIR f"
    by (auto simp: rmtree_def split: option.splits node.splits)
  then show ?thesis
    by (simp add: OUTPUT_DIR_def lookup_remove_single lookup_remove_other_head remove_root_kind)
qed

lemma make_output:
  assumes "mkdir_exist_ok OUTPUT_DIR f1 = Inr f2" and "lookup OUTPUT_DIR f1 = None"
  shows "lookup OUTPUT_DIR f2 = Some (Dir [])
       \<and> (\<forall>a p. a \<noteq> ''classified_images'' \<longrightarrow> lookup (a # p) f2 = lookup (a # p) f1)
       \<and> (\<exists>es. f1 = Dir es)"
proof -
  from assms obtain es where f1: "f1 = Dir es" and f2: "f2 = put OUTPUT_DIR (Dir []) f1"
    by (auto simp: mkdir_exist_ok_def OUTPUT_DIR_def split: option.splits node.splits)
  then show ?thesis
    by (simp add: OUTPUT_DIR_def lookup_put_single lookup_put_other_head)
qed

lemma setup_result:
  assumes "setup_output_directory svc st = Inr st'"
  shows "lookup OUTPUT_DIR (fs st') = Some (fresh_output (class_labels svc))
       \<and> (\<forall>a p. a \<noteq> ''classified_images'' \<longrightarrow> lookup (a # p) (fs st') = lookup (a # p) (fs st))
       \<and> (\<forall>c m. lookup OUTPUT_DIR (fs st) \<noteq> Some (File c m))
       \<and> (\<exists>es. fs st = Dir es)"
proof -
  from assms obtain f1 f2 f3 where
    a: "(if path_exists OUTPUT_DIR (fs st) then rmtree OUTPUT_DIR (fs st) else Inr (fs st)) = Inr f1"
    and b: "mkdir_exist_ok OUTPUT_DIR f1 = Inr f2"
    and c: "mkdir_classes (class_labels svc) f2 = Inr f3"
    and d: "fs st' = f3"
    by (auto simp: setup_output_directory_def split: sum.splits)
  note A = clear_output[OF a]
  from A have n: "lookup OUTPUT_DIR f1 = None" by blast
  note B = make_output[OF b n]
  from B have "lookup OUTPUT_DIR f2 = Some (Dir (map (\<lambda>k. (k, Dir [])) []))" by simp
  from mkdir_classes_result[OF this, of "class_labels svc"] c
  have C: "lookup OUTPUT_DIR f3 = Some (fresh_output (class_labels svc))"
     "\<forall>a p. a \<noteq> ''classified_images'' \<longrightarrow> lookup (a # p) f3 = lookup (a # p) f2"
    by (auto simp: fresh_output_def first_occurrences_def)
  from A B C d show ?thesis by auto
qed

lemma setup_succeeds:
  assumes "fs st = Dir es" and "\<forall>c m. lookup OUTPUT_DIR (fs st) \<noteq> Some (File c m)"
  shows "\<exists>st'. setup_output_directory svc st = Inr st'"
proof -
  have "\<exists>f1. (if path_exists OUTPUT_DIR (fs st) then rmtree OUTPUT_DIR (fs st)
      else Inr (fs st)) = Inr f1"
  proof (cases "lookup OUTPUT_DIR (fs st)")
    case None
    then show ?thesis by (simp add: path_exists_def)
  next
    case (Some n)
    with assms(2) obtain xs where "n = Dir xs" by (cases n) auto
    with Some show ?thesis by (simp add: path_exists_def rmtree_def)
  qed
  then obtain f1 where a: "(if path_exists OUTPUT_DIR (fs st) then rmtree OUTPUT_DIR (fs st)
      else Inr (fs st)) = Inr f1" ..
  note A = clear_output[OF a]
  with assms(1) obtain es1 where f1: "f1 = Dir es1" by auto
  from A f1 have b: "mkdir_exist_ok OUTPUT_DIR f1 = Inr (put OUTPUT_DIR (Dir []) f1)"
    by (simp add: mkdir_exist_ok_def OUTPUT_DIR_def)
  from make_output[OF b] A
  have "lookup OUTPUT_DIR (put OUTPUT_DIR (Dir []) f1) = Some (Dir (map (\<lambda>k. (k, Dir [])) []))"
    by simp
  from mkdir_classes_result[OF this, of "class_labels svc"] obtain f3 where
    "mkdir_classes (class_labels svc) (put OUTPUT_DIR (Dir []) f1) = Inr f3" by blast
  with a b show ?thesis
    by (simp add: setup_output_directory_def)
qed

lemma map_fst_map_entry: "map fst (AList.map_entry k g xs) = map fst xs"
  by (induction xs) auto

lemma set_map_entry:
  "e \<in> set (AList.map_entry k g xs) \<Longrightarrow>
     e \<in> set xs \<or> (\<exists>n0. (k, n0) \<in> set xs \<and> e = (k, g n0))"
  by (induction xs) (auto split: if_splits)

lemma set_update_subset: "set (AList.update k v xs) \<subseteq> insert (k, v) (set xs)"
  by (induction xs) auto

lemma class_folder_ok_put:
  assumes "class_folder_ok n0"
  shows "class_folder_ok (put [name] (File c m) n0)"
proof -
  from assms obtain xs where n0: "n0 = Dir xs" and d: "distinct (map fst xs)"
    and a: "\<forall>x\<in>set xs. case snd x of File _ _ \<Rightarrow> True | Dir _ \<Rightarrow> False"
    by (cases n0) (auto simp: class_folder_ok_def list_all_iff)
  have "\<forall>x\<in>set (AList.update name (File c m) xs). case snd x of File _ _ \<Rightarrow> True | Dir _ \<Rightarrow> False"
    using a set_update_subset[of name "File c m" xs] by auto
  with d n0 show ?thesis
    by (simp add: class_folder_ok_def list_all_iff put_single_Dir distinct_update)
qed

lemma layout_fresh:
  "lookup OUTPUT_DIR f = Some (fresh_output labels) \<Longrightarrow> output_layout (first_occurrences labels) f"
  by (simp add: output_layout_def fresh_output_def class_folder_ok_def list_all_iff comp_def)

lemma layout_lookup_class:
  assumes "output_layout ks f"
  shows "lookup (OUTPUT_DIR @ [l]) f = None \<and> l \<notin> set ks
       \<or> (\<exists>xs. lookup (OUTPUT_DIR @ [l]) f = Some (Dir xs) \<and> l \<in> set ks
             \<and> class_folder_ok (Dir xs))"
proof -
  from assms obtain es where o: "lookup OUTPUT_DIR f = Some (Dir es)" and k: "map fst es = ks"
    and a: "\<forall>e\<in>set es. class_folder_ok (snd e)"
    by (auto simp: output_layout_def list_all_iff split: option.splits node.splits)
  have l: "lookup (OUTPUT_DIR @ [l]) f = map_of es l"
    using o by (simp add: lookup_append lookup_single_Dir)
  show ?thesis
  proof (cases "map_of es l")
    case None
    with l k show ?thesis by (auto simp: map_of_eq_None_iff)
  next
    case (Some n)
    then have m: "(l, n) \<in> set es" by (rule map_of_SomeD)
    with a have ok: "class_folder_ok n" by force
    then obtain xs where "n = Dir xs" by (cases n) (auto simp: class_folder_ok_def)
    moreover from m k have "l \<in> set ks" by force
    ultimately show ?thesis using l Some ok by simp
  qed
qed

lemma layout_flat:
  assumes "output_layout ks f"
  shows "flat_output f"
  unfolding flat_output_def
proof (intro allI)
  fix l n es
  have split: "lookup (OUTPUT_DIR @ [l, n]) f =
      (case lookup (OUTPUT_DIR @ [l]) f of None \<Rightarrow> None | Some d \<Rightarrow> lookup [n] d)"
    using lookup_append[of "OUTPUT_DIR @ [l]" "[n]" f] by simp
  from layout_lookup_class[OF assms, of l]
  show "lookup (OUTPUT_DIR @ [l, n]) f \<noteq> Some (Dir es)"
  proof
    assume "lookup (OUTPUT_DIR @ [l]) f = None \<and> l \<notin> set ks"
    with split show ?thesis by simp
  next
    assume "\<exists>xs. lookup (OUTPUT_DIR @ [l]) f = Some (Dir xs) \<and> l \<in> set ks
        \<and> class_folder_ok (Dir xs)"
    then obtain xs where x: "lookup (OUTPUT_DIR @ [l]) f = Some (Dir xs)"
      and ok: "class_folder_ok (Dir xs)" by blast
    show ?thesis
    proof
      assume "lookup (OUTPUT_DIR @ [l, n]) f = Some (Dir es)"
      with split x have "map_of xs n = Some (Dir es)" by (simp add: lookup_single_Dir)
      then have "(n, Dir es) \<in> set xs" by (rule map_of_SomeD)
      with ok show False by (force simp: class_folder_ok_def list_all_iff)
    qed
  qed
qed

lemma layout_put:
  assumes "output_layout ks f" and "lookup (OUTPUT_DIR @ [l]) f = Some (Dir xs)"
  shows "output_layout ks (put (OUTPUT_DIR @ [l, name]) (File c m) f)"
proof -
  let ?o = "''classified_images''"
  from assms(1) obtain es where o: "lookup [?o] f = Some (Dir es)" and k: "map fst es = ks"
    and a: "\<forall>e\<in>set es. class_folder_ok (snd e)"
    by (auto simp: output_layout_def OUTPUT_DIR_def list_all_iff split: option.splits node.splits)
  have "lookup [?o] (put [?o, l, name] (File c m) f)
      = Some (put [l, name] (File c m) (Dir es))"
    using o by (simp add: lookup_put_same_head[of "[l, name]" ?o "[]"])
  then have o': "lookup [?o] (put [?o, l, name] (File c m) f)
      = Some (Dir (AList.map_entry l (put [name] (File c m)) es))"
    by (simp add: put.simps(2))
  have "\<forall>e\<in>set (AList.map_entry l (put [name] (File c m)) es). class_folder_ok (snd e)"
  proof
    fix e assume "e \<in> set (AList.map_entry l (put [name] (File c m)) es)"
    from set_map_entry[OF this]
    show "class_folder_ok (snd e)"
    proof
      assume "e \<in> set es"
      with a show ?thesis by blast
    next
      assume "\<exists>n0. (l, n0) \<in> set es \<and> e = (l, put [name] (File c m) n0)"
      then obtain n0 where n0: "(l, n0) \<in> set es" and e: "e = (l, put [name] (File c m) n0)"
        by blast
      from a n0 have "class_folder_ok (snd (l, n0))" by blast
      then have "class_folder_ok (put [name] (File c m) n0)"
        by (simp add: class_folder_ok_put)
      with e show ?thesis by simp
    qed
  qed
  with o' k show ?thesis
    by (simp add: output_layout_def OUTPUT_DIR_def list_all_iff map_fst_map_entry)
qed

lemma classify_step_effect:
  assumes "output_layout ks (fs st)"
    and "classified_as svc (fs st) img = Some p"
    and "classify_step svc img (st, res, k) = Inr (st', res', k')"
  shows "\<exists>c m xs n. lookup img (fs st) = Some (File c m)
           \<and> lookup (OUTPUT_DIR @ [p]) (fs st) = Some (Dir xs)
           \<and> fs st' = put (OUTPUT_DIR @ [p, name_of img]) (File c m) (fs st)
           \<and> map_of res p = Some n \<and> res' = AList.update p (n + 1) res \<and> k' = k + 1"
proof -
  let ?dst = "OUTPUT_DIR @ [p, name_of img]"
  from classify_step_classified[OF assms(2,3)] obtain n where
    cp: "copy2 img ?dst (fs st) = Inr (fs st')"
    and n: "map_of res p = Some n" "res' = AList.update p (n + 1) res" "k' = k + 1"
    by blast
  from layout_flat[OF assms(1)] have "\<forall>es. lookup ?dst (fs st) \<noteq> Some (Dir es)"
    by (simp add: flat_output_def)
  from copy2_flat[OF cp this] obtain c m es where
    "lookup img (fs st) = Some (File c m)" "fs st' = put ?dst (File c m) (fs st)"
    "lookup (butlast ?dst) (fs st) = Some (Dir es)"
    by blast
  with n show ?thesis by (simp add: butlast_append)
qed

lemma layout_step:
  assumes "output_layout ks (fs st)"
    and "classify_step svc img (st, res, k) = Inr (st', res', k')"
  shows "output_layout ks (fs st')"
proof (cases "classified_as svc (fs st) img")
  case None
  from classify_step_skip[OF None, of res k] assms show ?thesis by auto
next
  case (Some p)
  from classify_step_effect[OF assms(1) Some assms(2)] obtain c m xs where
    "lookup (OUTPUT_DIR @ [p]) (fs st) = Some (Dir xs)"
    "fs st' = put (OUTPUT_DIR @ [p, name_of img]) (File c m) (fs st)"
    by blast
  with layout_put[OF assms(1), of p xs "name_of img" c m] show ?thesis by simp
qed

lemma open_rb_lookup: "lookup p f = lookup p g \<Longrightarrow> open_rb p f = open_rb p g"
  by (simp add: open_rb_def)

lemma classified_as_lookup:
  assumes "lookup img f = lookup img g"
  shows "classified_as svc f img = classified_as svc g img"
proof -
  have "predicted svc img f = predicted svc img g"
    by (rule predicted_open) (rule open_rb_lookup[OF assms])
  then show ?thesis by (simp only: classified_as_def)
qed

lemma step_frame_classified:
  assumes "classify_step svc img (st, res, k) = Inr (st', res', k')"
    and "under_source imgs"
  shows "filter (\<lambda>i. P (classified_as svc (fs st') i) i) imgs
           = filter (\<lambda>i. P (classified_as svc (fs st) i) i) imgs"
proof (rule filter_cong[OF refl])
  fix i assume "i \<in> set imgs"
  with assms(2) obtain r where "i = ''colored_images'' # r"
    by (cases i) (auto simp: under_source_def list_all_iff)
  with step_frame[OF assms(1), of "''colored_images''" r]
  have "lookup i (fs st') = lookup i (fs st)" by simp
  from classified_as_lookup[OF this]
  show "P (classified_as svc (fs st') i) i = P (classified_as svc (fs st) i) i" by simp
qed

lemma sum_tally_update:
  fixes res :: tally
  shows "map_of res p = Some n \<Longrightarrow>
     sum_list (map snd (AList.update p (Suc n) res)) = Suc (sum_list (map snd res))"
  by (induction res) (auto split: if_splits)

lemma loop_counts:
  assumes "classify_loop svc imgs (st, res, k) = Inr (st', res', k')"
    and "output_layout ks (fs st)" and "under_source imgs"
  shows "sum_list (map snd res') =
           sum_list (map snd res) + length (filter (\<lambda>i. classified_as svc (fs st) i \<noteq> None) imgs)
       \<and> k' = k + length (filter (\<lambda>i. classified_as svc (fs st) i \<noteq> None) imgs)"
  using assms
proof (induction imgs arbitrary: st res k)
  case Nil
  then show ?case by simp
next
  case (Cons img imgs)
  from Cons.prems(1) obtain st1 res1 k1 where
    s: "classify_step svc img (st, res, k) = Inr (st1, res1, k1)"
    and l: "classify_loop svc imgs (st1, res1, k1) = Inr (st', res', k')"
    by (auto split: sum.splits)
  from Cons.prems(3) have us: "under_source imgs" by (simp add: under_source_def)
  note ih = Cons.IH[OF l layout_step[OF Cons.prems(2) s] us]
  have same: "filter (\<lambda>i. classified_as svc (fs st1) i \<noteq> None) imgs
      = filter (\<lambda>i. classified_as svc (fs st) i \<noteq> None) imgs"
    by (rule step_frame_classified[OF s us, of "\<lambda>c i. c \<noteq> None"])
  have head: "sum_list (map snd res1) = sum_list (map snd res)
        + (if classified_as svc (fs st) img \<noteq> None then 1 else 0)
      \<and> k1 = k + (if classified_as svc (fs st) img \<noteq> None then 1 else 0)"
  proof (cases "classified_as svc (fs st) img")
    case None
    from classify_step_skip[OF None, of res k] s None show ?thesis by auto
  next
    case (Some p)
    from classify_step_classified[OF Some s] obtain n where
      "map_of res p = Some n" "res1 = AList.update p (Suc n) res" "k1 = Suc k"
      by auto
    with sum_tally_update[of res p n] Some show ?thesis by simp
  qed
  have "filter (\<lambda>i. classified_as svc (fs st) i \<noteq> None) (img # imgs)
      = (if classified_as svc (fs st) img \<noteq> None then [img] else [])
          @ filter (\<lambda>i. classified_as svc (fs st) i \<noteq> None) imgs"
    by simp
  then have len: "length (filter (\<lambda>i. classified_as svc (fs st) i \<noteq> None) (img # imgs))
      = (if classified_as svc (fs st) img \<noteq> None then 1 else 0)
          + length (filter (\<lambda>i. classified_as svc (fs st) i \<noteq> None) imgs)"
    by simp
  from ih head show ?case unfolding len same by linarith
qed

declare walk.simps(2) [simp del]

lemma sub_walks_Nil: "sub_walks dirpath [] = []"
  by (simp add: sub_walks_def)

lemma sub_walks_Cons_File: "sub_walks dirpath ((k, File c m) # es) = [] # sub_walks dirpath es"
  by (simp add: sub_walks_def)

lemma sub_walks_Cons_Dir:
  "sub_walks dirpath ((k, Dir x) # es) = walk (dirpath @ [k]) (Dir x) # sub_walks dirpath es"
  by (simp add: sub_walks_def)

lemma sub_walks_member:
  assumes "ws \<in> set (sub_walks dirpath es)" and "w \<in> set ws"
  shows "\<exists>k x. (k, Dir x) \<in> set es \<and> w \<in> set (walk (dirpath @ [k]) (Dir x))"
  using assms
proof (induction es)
  case Nil
  then show ?case by (simp add: sub_walks_Nil)
next
  case (Cons e es)
  obtain k n where kn: "e = (k, n)" by (cases e)
  show ?case
  proof (cases n)
    case (File c m)
    with Cons.prems kn have "ws \<in> set (sub_walks dirpath es)"
      by (auto simp: sub_walks_Cons_File)
    from Cons.IH[OF this Cons.prems(2)] show ?thesis by auto
  next
    case (Dir x)
    with Cons.prems(1) kn have "ws = walk (dirpath @ [k]) (Dir x) \<or> ws \<in> set (sub_walks dirpath es)"
      by (simp add: sub_walks_Cons_Dir)
    then show ?thesis
    proof
      assume "ws = walk (dirpath @ [k]) (Dir x)"
      with Cons.prems(2) kn Dir show ?thesis by auto
    next
      assume "ws \<in> set (sub_walks dirpath es)"
      from Cons.IH[OF this Cons.prems(2)] show ?thesis by auto
    qed
  qed
qed

lemma walk_prefix:
  "(dp, ds, names) \<in> set (walk dirpath n) \<Longrightarrow> \<exists>r. dp = dirpath @ r"
proof (induction dirpath n arbitrary: dp ds names rule: walk.induct)
  case (1 dirpath c m)
  then show ?case by simp
next
  case (2 dirpath es)
  from "2.prems" have "(dp, ds, names) \<in> insert
      (dirpath, [k. (k, Dir _) \<leftarrow> es], [k. (k, File _ _) \<leftarrow> es])
      (set (concat (sub_walks dirpath es)))"
    unfolding walk_Dir by (simp only: list.set)
  then have "dp = dirpath \<or> (\<exists>ws\<in>set (sub_walks dirpath es). (dp, ds, names) \<in> set ws)"
    unfolding set_concat by blast
  then show ?case
  proof
    assume "dp = dirpath"
    then show ?thesis by simp
  next
    assume "\<exists>ws\<in>set (sub_walks dirpath es). (dp, ds, names) \<in> set ws"
    then obtain ws where "ws \<in> set (sub_walks dirpath es)" "(dp, ds, names) \<in> set ws" by blast
    from sub_walks_member[OF this] obtain k x where kn: "(k, Dir x) \<in> set es"
      and m: "(dp, ds, names) \<in> set (walk (dirpath @ [k]) (Dir x))"
      by blast
    from "2.IH"[OF kn refl refl m] obtain r where "dp = (dirpath @ [k]) @ r" by blast
    then show ?thesis by simp
  qed
qed

lemma images_of_walk_member:
  "i \<in> set (images_of_walk ws) \<Longrightarrow>
     \<exists>dp ds names file. (dp, ds, names) \<in> set ws \<and> file \<in> set names \<and> i = dp @ [file]"
  by (auto simp: images_of_walk_def)

lemma find_image_files_under:
  assumes "i \<in> set (find_image_files directory f)"
  shows "\<exists>r. i = directory @ r \<and> r \<noteq> []"
proof -
  have "\<exists>n. lookup directory f = Some n \<and> i \<in> set (images_of_walk (walk directory n))"
  proof (cases "lookup directory f")
    case None
    with assms show ?thesis by (simp add: find_image_files_def)
  next
    case (Some n)
    with assms show ?thesis by (simp add: find_image_files_def)
  qed
  then obtain n where n: "lookup directory f = Some n"
    and i: "i \<in> set (images_of_walk (walk directory n))"
    by blast
  from images_of_walk_member[OF i] obtain dp ds names fname where
    w: "(dp, ds, names) \<in> set (walk directory n)" and e: "i = dp @ [fname]" by blast
  from walk_prefix[OF w] obtain r where "dp = directory @ r" by blast
  with e show ?thesis by simp
qed

lemma find_image_files_under_source: "under_source (find_image_files SOURCE_DIR f)"
  unfolding under_source_def list_all_iff
proof
  fix i assume "i \<in> set (find_image_files SOURCE_DIR f)"
  from find_image_files_under[OF this] obtain r where "i = SOURCE_DIR @ r" by blast
  then show "case i of [] \<Rightarrow> False | a # r \<Rightarrow> a = ''colored_images''"
    by (simp add: SOURCE_DIR_def)
qed

lemma find_image_files_lookup:
  "lookup directory f = lookup directory g \<Longrightarrow> find_image_files directory f = find_image_files directory g"
  by (simp add: find_image_files_def)

lemma under_source_member:
  "under_source imgs \<Longrightarrow> i \<in> set imgs \<Longrightarrow> \<exists>r. i = ''colored_images'' # r"
  by (cases i) (auto simp: under_source_def list_all_iff)

lemma layout_loop:
  assumes "classify_loop svc imgs (st, res, k) = Inr (st', res', k')"
    and "output_layout ks (fs st)"
  shows "output_layout ks (fs st')"
  using assms
proof (induction imgs arbitrary: st res k)
  case Nil
  then show ?case by simp
next
  case (Cons img imgs)
  from Cons.prems(1) obtain st1 res1 k1 where
    s: "classify_step svc img (st, res, k) = Inr (st1, res1, k1)"
    and l: "classify_loop svc imgs (st1, res1, k1) = Inr (st', res', k')"
    by (auto split: sum.splits)
  from Cons.IH[OF l layout_step[OF Cons.prems(2) s]] show ?case .
qed

lemma loop_frame:
  assumes "classify_loop svc imgs (st, res, k) = Inr (st', res', k')"
    and "a \<noteq> ''classified_images''"
  shows "lookup (a # p) (fs st') = lookup (a # p) (fs st)"
  using assms(1)
proof (induction imgs arbitrary: st res k)
  case Nil
  then show ?case by simp
next
  case (Cons img imgs)
  from Cons.prems(1) obtain st1 res1 k1 where
    s: "classify_step svc img (st, res, k) = Inr (st1, res1, k1)"
    and l: "classify_loop svc imgs (st1, res1, k1) = Inr (st', res', k')"
    by (auto split: sum.splits)
  from Cons.IH[OF l] step_frame[OF s assms(2), of p] show ?case by simp
qed

lemma interface_success:
  assumes "honours_interface svc" and "process_image svc bytes = Inr r" and "success r = Some True"
  shows "\<exists>p c. prediction r = Some p \<and> p \<in> set (class_labels svc) \<and> p \<noteq> []
            \<and> confidence r = Some c"
proof -
  from assms have a: "(\<exists>p. prediction r = Some p \<and> p \<in> set (class_labels svc))
      \<and> confidence r \<noteq> None" and b: "\<forall>l\<in>set (class_labels svc). l \<noteq> []"
    unfolding honours_interface_def labels_are_names_def list_all_iff is_name_def by blast+
  then obtain p where p: "prediction r = Some p" "p \<in> set (class_labels svc)" by blast
  from a obtain c where "confidence r = Some c" by (cases "confidence r") auto
  with p b show ?thesis by blast
qed

lemma classified_iff_succeeded:
  assumes "honours_interface svc"
  shows "(classified_as svc f img \<noteq> None) = capability_succeeded svc f img"
proof (cases "open_rb img f")
  case (Inl e)
  then show ?thesis by (simp add: classified_as_def predicted_unfold capability_succeeded_def)
next
  case (Inr bytes)
  show ?thesis
  proof (cases "process_image svc bytes")
    case (Inl e)
    with Inr show ?thesis by (simp add: classified_as_def predicted_unfold capability_succeeded_def)
  next
    case r: (Inr r)
    show ?thesis
    proof (cases "success r = Some True")
      case False
      with Inr r show ?thesis
        by (simp add: classified_as_def predicted_unfold capability_succeeded_def)
    next
      case True
      from interface_success[OF assms r True] obtain p c where "prediction r = Some p"
        "p \<in> set (class_labels svc)" "confidence r = Some c" "p \<noteq> []"
        by blast
      with Inr r True show ?thesis
        by (simp add: classified_as_def predicted_unfold capability_succeeded_def)
    qed
  qed
qed

lemma sum_init_results: "sum_list (map snd (init_results labels)) = 0"
  by (simp add: init_results_eq comp_def)

text \<open>What a full run goes through, with the facts about its intermediate states.\<close>

lemma full_run:
  assumes "classify_images svc st = Inr (st', Some (res, n))"
  shows "\<exists>st1 st2.
           setup_output_directory svc
              (logger INFO (FoundImages (length (find_image_files SOURCE_DIR (fs st))))
                 (logger INFO Separator (logger INFO Starting st))) = Inr st1
         \<and> classify_loop svc (find_image_files SOURCE_DIR (fs st))
              (st1, init_results (class_labels svc), 0) = Inr (st2, res, n)
         \<and> fs st' = fs st2
         \<and> lookup OUTPUT_DIR (fs st1) = Some (fresh_output (class_labels svc))
         \<and> output_layout (first_occurrences (class_labels svc)) (fs st1)
         \<and> output_layout (first_occurrences (class_labels svc)) (fs st2)
         \<and> (\<forall>p. lookup (''colored_images'' # p) (fs st1) = lookup (''colored_images'' # p) (fs st))
         \<and> (\<forall>p. lookup (''colored_images'' # p) (fs st2) = lookup (''colored_images'' # p) (fs st))"
proof -
  from classify_images_full[OF assms] obtain st1 st2 where
    su: "setup_output_directory svc
              (logger INFO (FoundImages (length (find_image_files SOURCE_DIR (fs st))))
                 (logger INFO Separator (logger INFO Starting st))) = Inr st1"
    and lo: "classify_loop svc (find_image_files SOURCE_DIR (fs st))
              (st1, init_results (class_labels svc), 0) = Inr (st2, res, n)"
    and fin: "st' = st2\<lparr>logged := logged st2 @ summary res n\<rparr>"
    by blast
  from setup_result[OF su] have
    fresh: "lookup OUTPUT_DIR (fs st1) = Some (fresh_output (class_labels svc))"
    and fr1: "\<forall>p. lookup (''colored_images'' # p) (fs st1) = lookup (''colored_images'' # p) (fs st)"
    by simp_all
  note lay1 = layout_fresh[OF fresh]
  note lay2 = layout_loop[OF lo lay1]
  have fr2: "\<forall>p. lookup (''colored_images'' # p) (fs st2) = lookup (''colored_images'' # p) (fs st)"
  proof
    fix p
    have "lookup (''colored_images'' # p) (fs st2) = lookup (''colored_images'' # p) (fs st1)"
      by (rule loop_frame[OF lo]) simp
    with fr1 show "lookup (''colored_images'' # p) (fs st2) = lookup (''colored_images'' # p) (fs st)"
      by simp
  qed
  from fin have "fs st' = fs st2" by simp
  with su lo fresh lay1 lay2 fr1 fr2 show ?thesis by blast
qed

lemma filter_classified_frame:
  assumes "under_source imgs"
    and "\<forall>p. lookup (''colored_images'' # p) g = lookup (''colored_images'' # p) f"
  shows "filter (\<lambda>i. P (classified_as svc g i) i) imgs = filter (\<lambda>i. P (classified_as svc f i) i) imgs"
proof (rule filter_cong[OF refl])
  fix i assume "i \<in> set imgs"
  from under_source_member[OF assms(1) this] obtain r where "i = ''colored_images'' # r" by blast
  with assms(2) have "lookup i g = lookup i f" by simp
  from classified_as_lookup[OF this]
  show "P (classified_as svc g i) i = P (classified_as svc f i) i" by simp
qed







text \<open>
  Claim C1. For a capability that keeps to its interface and to its range (every
  confidence in [0,100], where the division by 100 cannot overflow), in every run that goes through the loop and returns, the per-class tallies add up to
  the number of discovered images that could be opened and for which the capability
  returned success true, and to the processed count.
\<close>

theorem tallies_sum_to_successes:
  assumes "classify_images svc st = Inr (st', Some (results, processed))"
    and "honours_interface svc"
    and "confidence_in_range svc"
  shows "sum_list (map snd results)
           = length (filter (capability_succeeded svc (fs st)) (find_image_files SOURCE_DIR (fs st)))
       \<and> sum_list (map snd results) = processed"
proof -
  let ?imgs = "find_image_files SOURCE_DIR (fs st)"
  from full_run[OF assms(1)] obtain st1 st2 where
    lo: "classify_loop svc ?imgs (st1, init_results (class_labels svc), 0) = Inr (st2, results, processed)"
    and lay: "output_layout (first_occurrences (class_labels svc)) (fs st1)"
    and fr: "\<forall>p. lookup (''colored_images'' # p) (fs st1) = lookup (''colored_images'' # p) (fs st)"
    by blast
  note us = find_image_files_under_source[of "fs st"]
  from loop_counts[OF lo lay us]
  have c: "sum_list (map snd results) = length (filter (\<lambda>i. classified_as svc (fs st1) i \<noteq> None) ?imgs)"
    "processed = length (filter (\<lambda>i. classified_as svc (fs st1) i \<noteq> None) ?imgs)"
    by (simp_all add: sum_init_results)
  have "filter (\<lambda>i. classified_as svc (fs st1) i \<noteq> None) ?imgs
      = filter (\<lambda>i. classified_as svc (fs st) i \<noteq> None) ?imgs"
    by (rule filter_classified_frame[OF us fr, of "\<lambda>c i. c \<noteq> None"])
  also have "\<dots> = filter (capability_succeeded svc (fs st)) ?imgs"
    by (rule filter_cong[OF refl]) (rule classified_iff_succeeded[OF assms(2)])
  finally have "filter (\<lambda>i. classified_as svc (fs st1) i \<noteq> None) ?imgs
      = filter (capability_succeeded svc (fs st)) ?imgs" .
  with c show ?thesis by (simp only:)
qed

lemma demo_honours_interface: "honours_interface demo_service"
  unfolding honours_interface_def
proof (intro conjI allI impI)
  show "labels_are_names demo_service"
    by (simp add: labels_are_names_def is_name_def demo_service_def)
next
  fix bytes r
  assume "process_image demo_service bytes = Inr r" and "success r = Some True"
  then have r: "r = demo_result ''Mild'' 87 \<or> r = demo_result ''Mild'' 90
      \<or> r = demo_result ''No_DR'' (199 / 2)"
    by (auto simp: demo_service_def split: if_splits)
  from r show "\<exists>p. prediction r = Some p \<and> p \<in> set (class_labels demo_service)"
    by (elim disjE) (simp_all add: demo_result_def demo_service_def)
  from r show "confidence r \<noteq> None"
    by (elim disjE) (simp_all add: demo_result_def)
qed

theorem tallies_sum_to_successes_witness:
  "classify_images demo_service demo_state
     = Inr (\<lparr>fs = demo_final_fs, logged = demo_log\<rparr>, Some (demo_tally, 3))
   \<and> honours_interface demo_service
   \<and> confidence_in_range demo_service
   \<and> sum_list (map snd demo_tally) = 3
   \<and> length (filter (capability_succeeded demo_service demo_fs) demo_images) = 3"
proof -
  from tallies_sum_to_successes[OF demo_run demo_honours_interface demo_confidence_in_range]
    demo_run demo_honours_interface demo_confidence_in_range demo_find
  show ?thesis by (simp add: demo_state_def)
qed

section \<open>The class folders\<close>


lemma fresh_output_keys:
  "fresh_output labels = Dir es \<Longrightarrow>
     map fst es = first_occurrences labels \<and> (\<forall>e\<in>set es. snd e = Dir [])"
  by (auto simp: fresh_output_def comp_def)

lemma layout_keys:
  assumes "output_layout ks f"
  shows "\<exists>es. lookup OUTPUT_DIR f = Some (Dir es) \<and> map fst es = ks
           \<and> (\<forall>e\<in>set es. \<exists>xs. snd e = Dir xs)"
proof -
  from assms obtain es where o: "lookup OUTPUT_DIR f = Some (Dir es)" and k: "map fst es = ks"
    and a: "\<forall>e\<in>set es. class_folder_ok (snd e)"
    by (auto simp: output_layout_def list_all_iff split: option.splits node.splits)
  have "\<forall>e\<in>set es. \<exists>xs. snd e = Dir xs"
  proof
    fix e assume "e \<in> set es"
    with a have "class_folder_ok (snd e)" by blast
    then show "\<exists>xs. snd e = Dir xs" by (cases "snd e") (auto simp: class_folder_ok_def)
  qed
  with o k show ?thesis by blast
qed

lemmas eval_simps = lookup.simps(2) put.simps(2) remove.simps(2) walk.simps(2)

lemma demo_labels_are_names: "labels_are_names demo_service"
  by (simp add: labels_are_names_def is_name_def demo_service_def)

lemma demo_setup:
  "setup_output_directory demo_service \<lparr>fs = demo_fs, logged = lg\<rparr>
     = Inr \<lparr>fs = demo_fresh_fs,
            logged = lg @ [(INFO, CreatedOutputDir [''classified_images'']),
                           (INFO, ClassLabels [''No_DR'', ''Mild'', ''Moderate''])]\<rparr>"
  by (simp add: demo_fresh_fs_def demo_defs run_defs eval_simps)

lemma demo_step:
  "classify_step demo_service [''colored_images'', ''0773a1c326ad.png'']
        (\<lparr>fs = demo_fresh_fs, logged = lg\<rparr>, [(''No_DR'', 0), (''Mild'', 0), (''Moderate'', 0)], 0)
      = Inr (\<lparr>fs = Dir [(''colored_images'', demo_source),
                         (''classified_images'',
                          Dir [(''No_DR'', Dir []),
                               (''Mild'', Dir [(''0773a1c326ad.png'', File ''A'' 1)]),
                               (''Moderate'', Dir [])])],
               logged = lg @ [(INFO, Processing ''0773a1c326ad.png''),
                              (INFO, ClassifiedAs ''Mild'' (87 / 100))]\<rparr>,
             [(''No_DR'', 0), (''Mild'', 1), (''Moderate'', 0)], 1)"
  by (simp add: demo_fresh_fs_def demo_defs run_defs eval_simps)

text \<open>
  Claim C2. With class labels that are names: the set-up leaves an output directory whose
  subdirectories are exactly the labels of the capability, each empty; after any number
  of iterations of the loop from that state, that is, before each copy that is
  attempted, the subdirectories of the output directory are still exactly the labels,
  so the folder of every known label exists; and the loop of a run starts from the
  state that the set-up leaves.
\<close>

theorem class_folders_exist_before_copying:
  assumes "labels_are_names svc"
    and "setup_output_directory svc st = Inr st1"
    and "classify_loop svc imgs (st1, res, k) = Inr (st2, res', k')"
  shows "(\<exists>es. lookup OUTPUT_DIR (fs st1) = Some (Dir es)
            \<and> set (map fst es) = set (class_labels svc) \<and> (\<forall>e\<in>set es. snd e = Dir []))
       \<and> (\<exists>es. lookup OUTPUT_DIR (fs st2) = Some (Dir es)
            \<and> set (map fst es) = set (class_labels svc) \<and> (\<forall>e\<in>set es. \<exists>xs. snd e = Dir xs))
       \<and> (\<forall>l\<in>set (class_labels svc). \<exists>xs. lookup (OUTPUT_DIR @ [l]) (fs st2) = Some (Dir xs))
       \<and> (classify_images svc start = Inr (final, Some (results, processed)) \<longrightarrow>
            (\<exists>sa sb.
               setup_output_directory svc
                 (logger INFO (FoundImages (length (find_image_files SOURCE_DIR (fs start))))
                    (logger INFO Separator (logger INFO Starting start))) = Inr sa
             \<and> classify_loop svc (find_image_files SOURCE_DIR (fs start))
                   (sa, init_results (class_labels svc), 0) = Inr (sb, results, processed)
             \<and> fs final = fs sb))"
proof (intro conjI impI)
  assume "classify_images svc start = Inr (final, Some (results, processed))"
  from full_run[OF this]
  show "\<exists>sa sb.
               setup_output_directory svc
                 (logger INFO (FoundImages (length (find_image_files SOURCE_DIR (fs start))))
                    (logger INFO Separator (logger INFO Starting start))) = Inr sa
             \<and> classify_loop svc (find_image_files SOURCE_DIR (fs start))
                   (sa, init_results (class_labels svc), 0) = Inr (sb, results, processed)
             \<and> fs final = fs sb"
    by blast
next
  let ?ks = "first_occurrences (class_labels svc)"
  from setup_result[OF assms(2)]
  have fresh: "lookup OUTPUT_DIR (fs st1) = Some (fresh_output (class_labels svc))" by blast
  obtain es where es: "fresh_output (class_labels svc) = Dir es"
    by (simp add: fresh_output_def)
  from fresh_output_keys[OF es] fresh es
  show "\<exists>es. lookup OUTPUT_DIR (fs st1) = Some (Dir es)
            \<and> set (map fst es) = set (class_labels svc) \<and> (\<forall>e\<in>set es. snd e = Dir [])"
    by (auto simp: set_first_occurrences simp del: set_map)
  note lay = layout_loop[OF assms(3) layout_fresh[OF fresh]]
  from layout_keys[OF lay]
  show "\<exists>es. lookup OUTPUT_DIR (fs st2) = Some (Dir es)
            \<and> set (map fst es) = set (class_labels svc) \<and> (\<forall>e\<in>set es. \<exists>xs. snd e = Dir xs)"
    by (auto simp: set_first_occurrences simp del: set_map)
  show "\<forall>l\<in>set (class_labels svc). \<exists>xs. lookup (OUTPUT_DIR @ [l]) (fs st2) = Some (Dir xs)"
  proof
    fix l assume "l \<in> set (class_labels svc)"
    then have "l \<in> set ?ks" by (simp add: set_first_occurrences)
    with layout_lookup_class[OF lay, of l] show "\<exists>xs. lookup (OUTPUT_DIR @ [l]) (fs st2) = Some (Dir xs)"
      by blast
  qed
qed

theorem class_folders_exist_before_copying_witness:
  "labels_are_names demo_service
   \<and> setup_output_directory demo_service \<lparr>fs = demo_fs, logged = []\<rparr>
       = Inr \<lparr>fs = demo_fresh_fs,
              logged = [(INFO, CreatedOutputDir [''classified_images'']),
                        (INFO, ClassLabels [''No_DR'', ''Mild'', ''Moderate''])]\<rparr>
   \<and> classify_loop demo_service [[''colored_images'', ''0773a1c326ad.png'']]
           (\<lparr>fs = demo_fresh_fs,
              logged = [(INFO, CreatedOutputDir [''classified_images'']),
                        (INFO, ClassLabels [''No_DR'', ''Mild'', ''Moderate''])]\<rparr>,
            [(''No_DR'', 0), (''Mild'', 0), (''Moderate'', 0)], 0)
       = Inr (\<lparr>fs = Dir [(''colored_images'', demo_source),
                         (''classified_images'',
                          Dir [(''No_DR'', Dir []),
                               (''Mild'', Dir [(''0773a1c326ad.png'', File ''A'' 1)]),
                               (''Moderate'', Dir [])])],
               logged = [(INFO, CreatedOutputDir [''classified_images'']),
                         (INFO, ClassLabels [''No_DR'', ''Mild'', ''Moderate'']),
                         (INFO, Processing ''0773a1c326ad.png''),
                         (INFO, ClassifiedAs ''Mild'' (87 / 100))]\<rparr>,
              [(''No_DR'', 0), (''Mild'', 1), (''Moderate'', 0)], 1)
   \<and> ''Mild'' \<in> set (class_labels demo_service)
   \<and> classify_images demo_service demo_state
       = Inr (\<lparr>fs = demo_final_fs, logged = demo_log\<rparr>, Some (demo_tally, 3))
   \<and> (\<exists>sa sb.
         setup_output_directory demo_service
           (logger INFO (FoundImages (length (find_image_files SOURCE_DIR (fs demo_state))))
              (logger INFO Separator (logger INFO Starting demo_state))) = Inr sa
       \<and> classify_loop demo_service (find_image_files SOURCE_DIR (fs demo_state))
             (sa, init_results (class_labels demo_service), 0) = Inr (sb, demo_tally, 3)
       \<and> fs \<lparr>fs = demo_final_fs, logged = demo_log\<rparr> = fs sb)
   \<and> (\<exists>es. lookup OUTPUT_DIR demo_fresh_fs = Some (Dir es)
          \<and> set (map fst es) = set (class_labels demo_service) \<and> (\<forall>e\<in>set es. snd e = Dir []))
   \<and> (\<exists>xs. lookup (OUTPUT_DIR @ [''Mild''])
              (Dir [(''colored_images'', demo_source),
                    (''classified_images'',
                     Dir [(''No_DR'', Dir []),
                          (''Mild'', Dir [(''0773a1c326ad.png'', File ''A'' 1)]),
                          (''Moderate'', Dir [])])]) = Some (Dir xs))"
proof -
  have su: "setup_output_directory demo_service \<lparr>fs = demo_fs, logged = []\<rparr>
       = Inr \<lparr>fs = demo_fresh_fs,
              logged = [(INFO, CreatedOutputDir [''classified_images'']),
                        (INFO, ClassLabels [''No_DR'', ''Mild'', ''Moderate''])]\<rparr>"
    using demo_setup[of "[]"] by simp
  have lo: "classify_loop demo_service [[''colored_images'', ''0773a1c326ad.png'']]
           (\<lparr>fs = demo_fresh_fs,
              logged = [(INFO, CreatedOutputDir [''classified_images'']),
                        (INFO, ClassLabels [''No_DR'', ''Mild'', ''Moderate''])]\<rparr>,
            [(''No_DR'', 0), (''Mild'', 0), (''Moderate'', 0)], 0)
       = Inr (\<lparr>fs = Dir [(''colored_images'', demo_source),
                         (''classified_images'',
                          Dir [(''No_DR'', Dir []),
                               (''Mild'', Dir [(''0773a1c326ad.png'', File ''A'' 1)]),
                               (''Moderate'', Dir [])])],
               logged = [(INFO, CreatedOutputDir [''classified_images'']),
                         (INFO, ClassLabels [''No_DR'', ''Mild'', ''Moderate'']),
                         (INFO, Processing ''0773a1c326ad.png''),
                         (INFO, ClassifiedAs ''Mild'' (87 / 100))]\<rparr>,
              [(''No_DR'', 0), (''Mild'', 1), (''Moderate'', 0)], 1)"
    by (simp add: demo_step)
  have known: "''Mild'' \<in> set (class_labels demo_service)"
    by (simp add: demo_service_def)
  note inst = class_folders_exist_before_copying
    [where start = demo_state and final = "\<lparr>fs = demo_final_fs, logged = demo_log\<rparr>"
       and results = demo_tally and processed = 3,
     OF demo_labels_are_names su lo]
  note c4 = inst[THEN conjunct2, THEN conjunct2, THEN conjunct2, THEN mp, OF demo_run]
  from inst[THEN conjunct1]
  have c1: "\<exists>es. lookup OUTPUT_DIR demo_fresh_fs = Some (Dir es)
          \<and> set (map fst es) = set (class_labels demo_service) \<and> (\<forall>e\<in>set es. snd e = Dir [])"
    by (simp only: state.select_convs)
  from inst[THEN conjunct2, THEN conjunct2, THEN conjunct1, THEN bspec, OF known]
  have c3: "\<exists>xs. lookup (OUTPUT_DIR @ [''Mild''])
              (Dir [(''colored_images'', demo_source),
                    (''classified_images'',
                     Dir [(''No_DR'', Dir []),
                          (''Mild'', Dir [(''0773a1c326ad.png'', File ''A'' 1)]),
                          (''Moderate'', Dir [])])]) = Some (Dir xs)"
    by (simp only: state.select_convs)
  show ?thesis
    by (intro conjI demo_labels_are_names su lo known demo_run c4 c1 c3)
qed

section \<open>Which copy a class folder keeps\<close>










section \<open>A second run\<close>

lemma same_view_source:
  "same_view f g \<Longrightarrow> lookup (''colored_images'' # p) f = lookup (''colored_images'' # p) g"
  using lookup_Cons[of "''colored_images''" p f] lookup_Cons[of "''colored_images''" p g]
  by (simp add: same_view_def SOURCE_DIR_def)

lemma same_view_output:
  "same_view f g \<Longrightarrow> lookup (''classified_images'' # p) f = lookup (''classified_images'' # p) g"
  using lookup_Cons[of "''classified_images''" p f] lookup_Cons[of "''classified_images''" p g]
  by (auto simp: same_view_def OUTPUT_DIR_def)

lemma same_view_put:
  assumes "same_view f g" and "q \<noteq> []"
  shows "same_view (put (''classified_images'' # q) new f) (put (''classified_images'' # q) new g)"
proof -
  have s: "lookup [''colored_images''] (put (''classified_images'' # q) new h)
      = lookup [''colored_images''] h" for h
    by (rule lookup_put_other_head) simp
  have o: "lookup [''classified_images''] (put (''classified_images'' # q) new h)
      = (case lookup [''classified_images''] h of None \<Rightarrow> None | Some n \<Rightarrow> Some (put q new n))" for h
    using lookup_put_same_head[OF assms(2), of "''classified_images''" "[]" new h]
    by (simp split: option.splits)
  from assms(1) obtain d where d: "lookup [''classified_images''] f = Some d"
    "lookup [''classified_images''] g = Some d"
    and sg: "lookup [''colored_images''] f = lookup [''colored_images''] g"
    by (auto simp: same_view_def SOURCE_DIR_def OUTPUT_DIR_def)
  show ?thesis
    unfolding same_view_def SOURCE_DIR_def OUTPUT_DIR_def s o d using sg by simp
qed

lemma same_view_intro:
  "lookup SOURCE_DIR f = lookup SOURCE_DIR g \<Longrightarrow> lookup OUTPUT_DIR f = Some d \<Longrightarrow>
     lookup OUTPUT_DIR g = Some d \<Longrightarrow> same_view f g"
  by (simp add: same_view_def)

lemma same_view_self: "lookup OUTPUT_DIR f = Some d \<Longrightarrow> same_view f f"
  by (simp add: same_view_def)

lemma copy2_view:
  assumes "same_view f g"
  shows "case copy2 (''colored_images'' # r) [''classified_images'', l, n] f of
           Inl e \<Rightarrow> copy2 (''colored_images'' # r) [''classified_images'', l, n] g = Inl e
         | Inr f' \<Rightarrow> (\<exists>g'. copy2 (''colored_images'' # r) [''classified_images'', l, n] g = Inr g'
                          \<and> same_view f' g')"
proof -
  let ?src = "''colored_images'' # r"
  let ?dst = "[''classified_images'', l, n]"
  note src = same_view_source[OF assms, of r]
  note dst = same_view_output[OF assms, of "[l, n]"]
  note par = same_view_output[OF assms, of "[l]"]
  note dst2 = same_view_output[OF assms, of "[l, n, name_of ?src]"]
  show ?thesis
  proof (cases "lookup ?src f")
    case None
    with src show ?thesis by (simp add: copy2_def)
  next
    case (Some sn)
    show ?thesis
    proof (cases sn)
      case (Dir xs)
      with Some src show ?thesis by (simp add: copy2_def)
    next
      case (File c m)
      have isdir: "(\<exists>es. lookup ?dst f = Some (Dir es)) = (\<exists>es. lookup ?dst g = Some (Dir es))"
        using dst by simp
      show ?thesis
      proof (cases "\<exists>es. lookup ?dst f = Some (Dir es)")
        case True
        then obtain es where df: "lookup ?dst f = Some (Dir es)" by blast
        with dst have dg: "lookup ?dst g = Some (Dir es)" by simp
        have v: "same_view (put (?dst @ [name_of ?src]) (File c m) f)
                    (put (?dst @ [name_of ?src]) (File c m) g)"
          using same_view_put[OF assms, of "[l, n, name_of ?src]"] by simp
        from Some File src df dg dst dst2 v show ?thesis
          by (auto simp: copy2_def Let_def split: option.splits node.splits)
      next
        case False
        with isdir have ng: "\<not> (\<exists>es. lookup ?dst g = Some (Dir es))" by simp
        have df: "(case lookup ?dst f of Some (Dir x) \<Rightarrow> ?dst @ [name_of ?src] | _ \<Rightarrow> ?dst) = ?dst"
          using False by (auto split: option.splits node.splits)
        have dg: "(case lookup ?dst g of Some (Dir x) \<Rightarrow> ?dst @ [name_of ?src] | _ \<Rightarrow> ?dst) = ?dst"
          using ng by (auto split: option.splits node.splits)
        have v: "same_view (put ?dst (File c m) f) (put ?dst (File c m) g)"
          using same_view_put[OF assms, of "[l, n]"] by simp
        have ff: "copy2 ?src ?dst f =
            (case lookup [''classified_images'', l] f of
               None \<Rightarrow> Inl FileNotFoundError
             | Some (File _ _) \<Rightarrow> Inl NotADirectoryError
             | Some (Dir _) \<Rightarrow> Inr (put ?dst (File c m) f))"
          using Some File False
          by (auto simp: copy2_def Let_def df split: option.splits node.splits)
        have gg: "copy2 ?src ?dst g =
            (case lookup [''classified_images'', l] g of
               None \<Rightarrow> Inl FileNotFoundError
             | Some (File _ _) \<Rightarrow> Inl NotADirectoryError
             | Some (Dir _) \<Rightarrow> Inr (put ?dst (File c m) g))"
          using Some File src ng
          by (auto simp: copy2_def Let_def dg split: option.splits node.splits)
        from par v show ?thesis
          unfolding ff gg by (auto split: option.splits node.splits)
      qed
    qed
  qed
qed

lemma classify_step_classified_form:
  assumes "classified_as svc (fs st) img = Some p"
  shows "\<exists>lg. classify_step svc img (st, res, k) =
           (case copy2 img (OUTPUT_DIR @ [p, name_of img]) (fs st) of
              Inl e \<Rightarrow> Inl e
            | Inr f \<Rightarrow>
                (case map_of res p of
                   None \<Rightarrow> Inl (KeyError p)
                 | Some n \<Rightarrow> Inr (\<lparr>fs = f, logged = lg\<rparr>, AList.update p (n + 1) res, k + 1)))"
proof -
  let ?st0 = "logger INFO (Processing (name_of img)) st"
  obtain st1 r where pr: "predict_image_using_django_service svc img ?st0 = (st1, r)"
    by (cases "predict_image_using_django_service svc img ?st0")
  from predict_fst_fs[of svc img ?st0] pr have st1: "fs st1 = fs st" by simp
  from predict_snd[of svc img ?st0] pr have r: "r = predicted svc img (fs st)" by simp
  from assms r obtain c where rc: "r = Some (p, c)" and ne: "p \<noteq> []"
    by (auto simp: classified_as_def split: option.splits if_splits)
  have "classify_step svc img (st, res, k) =
           (case copy2 img (OUTPUT_DIR @ [p, name_of img]) (fs st) of
              Inl e \<Rightarrow> Inl e
            | Inr f \<Rightarrow>
                (case map_of res p of
                   None \<Rightarrow> Inl (KeyError p)
                 | Some n \<Rightarrow> Inr (\<lparr>fs = f, logged = logged st1 @ [(INFO, ClassifiedAs p c)]\<rparr>,
                                  AList.update p (n + 1) res, k + 1)))"
    using pr rc ne st1
    by (simp add: classify_step_def logger_def split: sum.splits option.splits)
  then show ?thesis by blast
qed

lemma step_view:
  assumes "same_view (fs a) (fs b)"
  shows "same_outcome (classify_step svc (''colored_images'' # r) (a, res, k))
                      (classify_step svc (''colored_images'' # r) (b, res, k))"
proof -
  let ?img = "''colored_images'' # r"
  have cl: "classified_as svc (fs a) ?img = classified_as svc (fs b) ?img"
    by (rule classified_as_lookup) (rule same_view_source[OF assms])
  from assms obtain d where d: "lookup OUTPUT_DIR (fs a) = Some d"
    by (auto simp: same_view_def)
  show ?thesis
  proof (cases "classified_as svc (fs a) ?img")
    case None
    from classify_step_skip[OF None, of res k] obtain lg where
      sa: "classify_step svc ?img (a, res, k) = Inr (a\<lparr>logged := lg\<rparr>, res, k)" by blast
    from None cl have "classified_as svc (fs b) ?img = None" by simp
    from classify_step_skip[OF this, of res k] obtain lg' where
      sb: "classify_step svc ?img (b, res, k) = Inr (b\<lparr>logged := lg'\<rparr>, res, k)" by blast
    from assms show ?thesis by (simp add: same_outcome_def sa sb)
  next
    case (Some p)
    from classify_step_classified_form[OF Some, of res k] obtain lg where
      sa: "classify_step svc ?img (a, res, k) =
           (case copy2 ?img (OUTPUT_DIR @ [p, name_of ?img]) (fs a) of
              Inl e \<Rightarrow> Inl e
            | Inr f \<Rightarrow>
                (case map_of res p of
                   None \<Rightarrow> Inl (KeyError p)
                 | Some n \<Rightarrow> Inr (\<lparr>fs = f, logged = lg\<rparr>, AList.update p (n + 1) res, k + 1)))"
      by blast
    from Some cl have "classified_as svc (fs b) ?img = Some p" by simp
    from classify_step_classified_form[OF this, of res k] obtain lg' where
      sb: "classify_step svc ?img (b, res, k) =
           (case copy2 ?img (OUTPUT_DIR @ [p, name_of ?img]) (fs b) of
              Inl e \<Rightarrow> Inl e
            | Inr f \<Rightarrow>
                (case map_of res p of
                   None \<Rightarrow> Inl (KeyError p)
                 | Some n \<Rightarrow> Inr (\<lparr>fs = f, logged = lg'\<rparr>, AList.update p (n + 1) res, k + 1)))"
      by blast
    have dst: "OUTPUT_DIR @ [p, name_of ?img] = [''classified_images'', p, name_of ?img]"
      by (simp add: OUTPUT_DIR_def)
    note cv = copy2_view[OF assms, of r p "name_of ?img"]
    show ?thesis
    proof (cases "copy2 ?img [''classified_images'', p, name_of ?img] (fs a)")
      case (Inl e)
      with cv have "copy2 ?img [''classified_images'', p, name_of ?img] (fs b) = Inl e" by simp
      with Inl show ?thesis by (simp add: same_outcome_def sa sb dst)
    next
      case (Inr f')
      with cv obtain g' where g: "copy2 ?img [''classified_images'', p, name_of ?img] (fs b) = Inr g'"
        and v: "same_view f' g'" by auto
      show ?thesis
      proof (cases "map_of res p")
        case None
        with Inr g show ?thesis by (simp add: same_outcome_def sa sb dst)
      next
        case (Some n)
        with Inr g v show ?thesis by (simp add: same_outcome_def sa sb dst)
      qed
    qed
  qed
qed

lemma loop_view:
  assumes "same_view (fs a) (fs b)" and "under_source imgs"
  shows "same_outcome (classify_loop svc imgs (a, res, k)) (classify_loop svc imgs (b, res, k))"
  using assms
proof (induction imgs arbitrary: a b res k)
  case Nil
  then show ?case by (simp add: same_outcome_def)
next
  case (Cons img imgs)
  from Cons.prems(2) obtain r where img: "img = ''colored_images'' # r"
    by (cases img) (auto simp: under_source_def)
  from Cons.prems(2) have us: "under_source imgs" by (simp add: under_source_def)
  note sv = step_view[OF Cons.prems(1), of svc r res k]
  show ?case
  proof (cases "classify_step svc img (a, res, k)")
    case (Inl e)
    with sv img have "classify_step svc img (b, res, k) = Inl e" by (simp add: same_outcome_def)
    with Inl show ?thesis by (simp add: same_outcome_def)
  next
    case (Inr x)
    obtain a1 r1 k1 where x: "x = (a1, r1, k1)" by (cases x)
    with sv img Inr obtain b1 where sb: "classify_step svc img (b, res, k) = Inr (b1, r1, k1)"
      and v: "same_view (fs a1) (fs b1)"
      by (auto simp: same_outcome_def)
    from Cons.IH[OF v us, of r1 k1] Inr x sb show ?thesis by simp
  qed
qed

lemma classify_images_intro:
  assumes "path_exists SOURCE_DIR (fs st)" and "find_image_files SOURCE_DIR (fs st) \<noteq> []"
    and "setup_output_directory svc
              (logger INFO (FoundImages (length (find_image_files SOURCE_DIR (fs st))))
                 (logger INFO Separator (logger INFO Starting st))) = Inr st1"
    and "classify_loop svc (find_image_files SOURCE_DIR (fs st))
              (st1, init_results (class_labels svc), 0) = Inr (st2, res, n)"
  shows "classify_images svc st = Inr (st2\<lparr>logged := logged st2 @ summary res n\<rparr>, Some (res, n))"
  using assms by (simp add: classify_images_def Let_def)

text \<open>
  Claim C6. With class labels that are names: when a run returns, a second run, started
  in the state the first one left, with the same capability, returns too, with the same
  tally and count, and the output directory after it is the tree that the first run
  left. The first run leaves the source tree as it was.
\<close>

theorem second_run_gives_same_output:
  assumes "labels_are_names svc"
    and "classify_images svc st = Inr (st1, out1)"
  shows "\<exists>st2. classify_images svc st1 = Inr (st2, out1)
           \<and> lookup OUTPUT_DIR (fs st2) = lookup OUTPUT_DIR (fs st1)
           \<and> lookup SOURCE_DIR (fs st1) = lookup SOURCE_DIR (fs st)"
proof (cases out1)
  case None
  with classify_images_early[of svc st st1] assms(2)
  have f: "fs st1 = fs st"
    and c: "\<not> path_exists SOURCE_DIR (fs st) \<or> find_image_files SOURCE_DIR (fs st) = []"
    by simp_all
  from c f have "\<exists>st2. classify_images svc st1 = Inr (st2, None) \<and> fs st2 = fs st1"
    by (auto simp: classify_images_def Let_def)
  with None f show ?thesis by auto
next
  case (Some rk)
  obtain res n where rk: "rk = (res, n)" by (cases rk)
  let ?imgs = "find_image_files SOURCE_DIR (fs st)"
  let ?ks = "first_occurrences (class_labels svc)"
  from assms(2) Some rk have run: "classify_images svc st = Inr (st1, Some (res, n))" by simp
  from classify_images_full[OF run] have pe: "path_exists SOURCE_DIR (fs st)" and ne: "?imgs \<noteq> []"
    by blast+
  from full_run[OF run] obtain sa sb where
    lo: "classify_loop svc ?imgs (sa, init_results (class_labels svc), 0) = Inr (sb, res, n)"
    and fin: "fs st1 = fs sb"
    and fresh: "lookup OUTPUT_DIR (fs sa) = Some (fresh_output (class_labels svc))"
    and lay2: "output_layout ?ks (fs sb)"
    and fr1: "\<forall>p. lookup (''colored_images'' # p) (fs sa) = lookup (''colored_images'' # p) (fs st)"
    and fr2: "\<forall>p. lookup (''colored_images'' # p) (fs sb) = lookup (''colored_images'' # p) (fs st)"
    by blast
  have src1: "lookup SOURCE_DIR (fs st1) = lookup SOURCE_DIR (fs st)"
    using fr2 fin by (simp add: SOURCE_DIR_def)
  then have imgs1: "find_image_files SOURCE_DIR (fs st1) = ?imgs"
    by (rule find_image_files_lookup)
  from src1 pe have pe1: "path_exists SOURCE_DIR (fs st1)" by (simp add: path_exists_def)
  from layout_keys[OF lay2] fin obtain es where out1: "lookup OUTPUT_DIR (fs st1) = Some (Dir es)"
    by auto
  then obtain rs where root: "fs st1 = Dir rs"
    using lookup_Cons_Some_root[of "''classified_images''" "[]" "fs st1"]
    by (auto simp: OUTPUT_DIR_def)
  let ?st0 = "logger INFO (FoundImages (length (find_image_files SOURCE_DIR (fs st1))))
                 (logger INFO Separator (logger INFO Starting st1))"
  have "\<exists>sa'. setup_output_directory svc ?st0 = Inr sa'"
    by (rule setup_succeeds[of _ rs]) (simp_all add: root[symmetric] out1)
  then obtain sa' where su': "setup_output_directory svc ?st0 = Inr sa'" ..
  from setup_result[OF su'] have
    fresh': "lookup OUTPUT_DIR (fs sa') = Some (fresh_output (class_labels svc))"
    and fr1': "\<forall>p. lookup (''colored_images'' # p) (fs sa') = lookup (''colored_images'' # p) (fs st1)"
    by simp_all
  have "lookup SOURCE_DIR (fs sa) = lookup SOURCE_DIR (fs sa')"
    using fr1 fr1' src1 by (simp add: SOURCE_DIR_def)
  from same_view_intro[OF this fresh fresh'] have v: "same_view (fs sa) (fs sa')" .
  from loop_view[OF v find_image_files_under_source[of "fs st"], of svc "init_results (class_labels svc)" 0] lo
  obtain sb' where lo': "classify_loop svc ?imgs (sa', init_results (class_labels svc), 0) = Inr (sb', res, n)"
    and v2: "same_view (fs sb) (fs sb')"
    by (auto simp: same_outcome_def)
  from su' lo' imgs1 have
    "classify_images svc st1 = Inr (sb'\<lparr>logged := logged sb' @ summary res n\<rparr>, Some (res, n))"
    using classify_images_intro[OF pe1, of svc sa' sb' res n] ne by simp
  moreover from v2 fin have "lookup OUTPUT_DIR (fs (sb'\<lparr>logged := logged sb' @ summary res n\<rparr>))
      = lookup OUTPUT_DIR (fs st1)"
    by (auto simp: same_view_def)
  ultimately show ?thesis using Some rk src1 by blast
qed

theorem second_run_gives_same_output_witness:
  "labels_are_names demo_service
   \<and> classify_images demo_service demo_state
       = Inr (\<lparr>fs = demo_final_fs, logged = demo_log\<rparr>, Some (demo_tally, 3))
   \<and> (\<exists>st2. classify_images demo_service \<lparr>fs = demo_final_fs, logged = demo_log\<rparr>
                = Inr (st2, Some (demo_tally, 3))
             \<and> lookup OUTPUT_DIR (fs st2) = Some demo_output)
   \<and> lookup SOURCE_DIR demo_final_fs = lookup SOURCE_DIR demo_fs"
proof -
  have out: "lookup OUTPUT_DIR demo_final_fs = Some demo_output"
    by (simp add: OUTPUT_DIR_def demo_final_fs_def eval_simps)
  from second_run_gives_same_output[OF demo_labels_are_names demo_run] out
  have "(\<exists>st2. classify_images demo_service \<lparr>fs = demo_final_fs, logged = demo_log\<rparr>
                = Inr (st2, Some (demo_tally, 3))
             \<and> lookup OUTPUT_DIR (fs st2) = Some demo_output)
      \<and> lookup SOURCE_DIR demo_final_fs = lookup SOURCE_DIR demo_fs"
    by (auto simp: demo_state_def)
  with demo_labels_are_names demo_run show ?thesis by blast
qed

end
